theory Spec2Isabelle
  imports Main
begin

section \<open>Values of the host language\<close>

text \<open>
  An optional property of an options object is in one of three states: the object has
  no such key, the key is there with the value \<open>undefined\<close>, or the key holds a value.
  \<open>Object.keys\<close> tells the first two apart, every other read does not.
\<close>

datatype 'a optional = Missing | Undefined | Val 'a

fun prop_value :: "'a optional \<Rightarrow> 'a option" where
  "prop_value (Val x) = Some x"
| "prop_value _ = None"

text \<open>A string is truthy when it is not empty; \<open>undefined\<close> is falsy.\<close>

fun truthy :: "string option \<Rightarrow> bool" where
  "truthy None = False"
| "truthy (Some s) = (s \<noteq> [])"

text \<open>A slot of a result tuple: \<open>null\<close> or a value.\<close>

datatype 'a nullable = Null | Value 'a

section \<open>\<open>src/lib/utils.ts\<close>: \<open>safeTry\<close>\<close>

text \<open>
  A \<open>try\<close> block is a computation that ends in a value or in a thrown error; the
  \<open>catch\<close> clause receives the error.
\<close>

definition try_catch :: "('e + 'a) \<Rightarrow> ('a \<Rightarrow> 'b) \<Rightarrow> ('e \<Rightarrow> 'b) \<Rightarrow> 'b" where
  "try_catch body on_value on_error =
     (case body of Inr r \<Rightarrow> on_value r | Inl e \<Rightarrow> on_error e)"

text \<open>
  \<^verbatim>\<open>try { const result = operation; return [result, null]; }
  catch (e) { return [null, e as E]; }\<close>
  The argument is a value when the body starts: binding it to \<open>result\<close> cannot throw.
\<close>

definition safeTry :: "'a \<Rightarrow> 'a nullable \<times> 'e nullable" where
  "safeTry operation =
     try_catch (Inr operation :: 'e + 'a)
       (\<lambda>result. (Value result, Null))
       (\<lambda>e. (Null, Value e))"

section \<open>The platform's \<open>URLSearchParams\<close>\<close>

text \<open>
  A \<open>URLSearchParams\<close> object holds an ordered list of name-value pairs, where a name
  may occur more than once. Strings are sequences of bytes (the UTF-8 encoding of the
  program's strings).
\<close>

type_synonym params = "(string \<times> string) list"

text \<open>\<open>get\<close>: the value of the first pair with that name, or \<open>null\<close>.\<close>

fun URLSearchParams_get :: "params \<Rightarrow> string \<Rightarrow> string option" where
  "URLSearchParams_get [] name = None"
| "URLSearchParams_get ((n, v) # ps) name =
     (if n = name then Some v else URLSearchParams_get ps name)"

definition URLSearchParams_has :: "params \<Rightarrow> string \<Rightarrow> bool" where
  "URLSearchParams_has ps name = (\<exists>p \<in> set ps. fst p = name)"

text \<open>\<open>delete\<close>: remove every pair with that name.\<close>

definition URLSearchParams_delete :: "string \<Rightarrow> params \<Rightarrow> params" where
  "URLSearchParams_delete name ps = filter (\<lambda>p. fst p \<noteq> name) ps"

text \<open>
  \<open>set\<close>: if the name occurs, the first pair with that name takes the value and the
  others are removed; otherwise a new pair is appended.
\<close>

fun URLSearchParams_set :: "string \<Rightarrow> string \<Rightarrow> params \<Rightarrow> params" where
  "URLSearchParams_set name v [] = [(name, v)]"
| "URLSearchParams_set name v ((n, w) # ps) =
     (if n = name then (name, v) # URLSearchParams_delete name ps
      else (n, w) # URLSearchParams_set name v ps)"

subsection \<open>Serialising and parsing (\<open>application/x-www-form-urlencoded\<close>)\<close>

text \<open>
  \<open>toString\<close> writes each pair as \<open>name=value\<close>, joined with \<open>&\<close>. In names and
  values a space becomes \<open>+\<close>, the bytes \<open>*-._\<close>, digits and letters stay, and every
  other byte becomes \<open>%\<close> and two upper-case hexadecimal digits.
\<close>

definition urlencoded_unreserved :: "char \<Rightarrow> bool" where
  "urlencoded_unreserved c =
     (c \<in> set ''*-._0123456789ABCDEFGHIJKLMNOPQRSTUVWXYZabcdefghijklmnopqrstuvwxyz'')"

definition hex_digit :: "nat \<Rightarrow> char" where
  "hex_digit n = ''0123456789ABCDEF'' ! n"

definition percent_encode_byte :: "char \<Rightarrow> string" where
  "percent_encode_byte c =
     [CHR ''%'', hex_digit (of_char c div 16), hex_digit (of_char c mod 16)]"

definition urlencoded_byte :: "char \<Rightarrow> string" where
  "urlencoded_byte c =
     (if c = CHR '' '' then ''+''
      else if urlencoded_unreserved c then [c]
      else percent_encode_byte c)"

definition urlencoded_string :: "string \<Rightarrow> string" where
  "urlencoded_string s = concat (map urlencoded_byte s)"

fun URLSearchParams_toString :: "params \<Rightarrow> string" where
  "URLSearchParams_toString [] = []"
| "URLSearchParams_toString [(n, v)] = urlencoded_string n @ ''='' @ urlencoded_string v"
| "URLSearchParams_toString ((n, v) # p # ps) =
     urlencoded_string n @ ''='' @ urlencoded_string v @ ''&'' @
     URLSearchParams_toString (p # ps)"

text \<open>
  The constructor \<open>new URLSearchParams(init)\<close> on a string: a leading \<open>?\<close> is dropped,
  the rest is split at every \<open>&\<close>, empty pieces are skipped, each piece is split at its
  first \<open>=\<close>, \<open>+\<close> becomes a space and percent escapes are decoded (a \<open>%\<close> that is
  not followed by two hexadecimal digits stays). The final UTF-8 decoding, which only
  changes byte sequences that are not UTF-8, is left out: the program parses nothing but
  the output of \<open>toString\<close> and the empty string.
\<close>

fun split_on :: "char \<Rightarrow> string \<Rightarrow> string list" where
  "split_on d [] = [[]]"
| "split_on d (c # cs) =
     (if c = d then [] # split_on d cs
      else (case split_on d cs of
              s # ss \<Rightarrow> (c # s) # ss
            | [] \<Rightarrow> [[c]]))"

definition hex_value :: "char \<Rightarrow> nat option" where
  "hex_value c =
     (let n = (of_char c :: nat) in
      if 48 \<le> n \<and> n \<le> 57 then Some (n - 48)
      else if 65 \<le> n \<and> n \<le> 70 then Some (n - 55)
      else if 97 \<le> n \<and> n \<le> 102 then Some (n - 87)
      else None)"

fun percent_decode :: "string \<Rightarrow> string" where
  "percent_decode (c # h1 # h2 # rest) =
     (if c = CHR ''%'' then
        (case (hex_value h1, hex_value h2) of
           (Some a, Some b) \<Rightarrow> char_of (16 * a + b) # percent_decode rest
         | _ \<Rightarrow> c # percent_decode (h1 # h2 # rest))
      else c # percent_decode (h1 # h2 # rest))"
| "percent_decode (c # cs) = c # percent_decode cs"
| "percent_decode [] = []"

definition plus_to_space :: "string \<Rightarrow> string" where
  "plus_to_space s = map (\<lambda>c. if c = CHR ''+'' then CHR '' '' else c) s"

definition parse_pair :: "string \<Rightarrow> string \<times> string" where
  "parse_pair bytes =
     (let name = takeWhile (\<lambda>c. c \<noteq> CHR ''='') bytes;
          val = drop (length name + 1) bytes
      in (percent_decode (plus_to_space name), percent_decode (plus_to_space val)))"

definition urlencoded_parse :: "string \<Rightarrow> params" where
  "urlencoded_parse input =
     map parse_pair (filter (\<lambda>s. s \<noteq> []) (split_on CHR ''&'' input))"

definition URLSearchParams_new :: "string \<Rightarrow> params" where
  "URLSearchParams_new init =
     urlencoded_parse
       (case init of
          [] \<Rightarrow> init
        | c # cs \<Rightarrow> if c = CHR ''?'' then cs else init)"

section \<open>\<open>src/hooks/use-query-state.ts\<close>: options, policy and predicate\<close>

datatype parse_error_mode = Fallback | Remove

text \<open>
  \<open>UseQueryStateOptions\<close>. The schema is the injected validator: \<open>safeParse\<close> maps a raw
  string to its parsed output (\<open>success\<close> with \<open>data\<close>) or fails.
\<close>

record options =
  defaultValue :: "string optional"
  schema :: "(string \<Rightarrow> string option) optional"
  onParseError :: "parse_error_mode optional"

text \<open>The empty object literal \<open>{}\<close>.\<close>

definition empty_options :: options where
  "empty_options = \<lparr>defaultValue = Missing, schema = Missing, onParseError = Missing\<rparr>"

text \<open>\<open>Object.keys(options).length\<close>: the number of keys the object has.\<close>

fun has_key :: "'a optional \<Rightarrow> bool" where
  "has_key Missing = False"
| "has_key _ = True"

definition object_keys_length :: "options \<Rightarrow> nat" where
  "object_keys_length opts =
     (if has_key (defaultValue opts) then 1 else 0) +
     (if has_key (schema opts) then 1 else 0) +
     (if has_key (onParseError opts) then 1 else 0)"

text \<open>\<open>!!options && !!Object.keys(options).length\<close>\<close>

definition hasOptions :: "options option \<Rightarrow> bool" where
  "hasOptions options =
     (case options of None \<Rightarrow> False | Some opts \<Rightarrow> object_keys_length opts \<noteq> 0)"

text \<open>\<open>options?.defaultValue\<close> and \<open>options?.schema\<close>\<close>

definition opt_defaultValue :: "options option \<Rightarrow> string option" where
  "opt_defaultValue options =
     (case options of None \<Rightarrow> None | Some opts \<Rightarrow> prop_value (defaultValue opts))"

definition opt_schema :: "options option \<Rightarrow> (string \<Rightarrow> string option) option" where
  "opt_schema options =
     (case options of None \<Rightarrow> None | Some opts \<Rightarrow> prop_value (schema opts))"

text \<open>
  \<open>shouldUpdateQueryState\<close>. \<open>previousSearchParams?.get(key)\<close> is \<open>undefined\<close> when there
  is no previous object and \<open>null\<close> when the name is absent; \<open>value\<close> is a string, so
  \<open>value !== \<dots>\<close> is true in both cases.
\<close>

definition shouldUpdateQueryState ::
  "string \<Rightarrow> string \<Rightarrow> options option \<Rightarrow> bool \<Rightarrow> params option \<Rightarrow> bool \<Rightarrow> bool" where
  "shouldUpdateQueryState key val options paramExists previousSearchParams isInitialMount =
     (if \<not> hasOptions options \<and> paramExists \<and> val \<noteq> [] then False
      else
        let hasDefaultValue = hasOptions options \<and> truthy (opt_defaultValue options);
            hasSchema = hasOptions options \<and>
              (case opt_schema options of None \<Rightarrow> False | Some safeParse \<Rightarrow> True)
        in (isInitialMount \<and> hasDefaultValue \<and> Some val \<noteq> opt_defaultValue options) \<or>
           (isInitialMount \<and> \<not> hasDefaultValue \<and> hasSchema) \<or>
           (paramExists \<and> val = []) \<or>
           (\<not> paramExists \<and> hasDefaultValue) \<or>
           (hasSchema \<and>
              (case previousSearchParams of
                 None \<Rightarrow> True
               | Some prev \<Rightarrow> Some val \<noteq> URLSearchParams_get prev key)))"

text \<open>
  \<open>updateQueryState\<close> mutates the \<open>URLSearchParams\<close> object it is given; the model
  returns the new list. \<open>onParseError\<close> takes its default \<open>"fallback"\<close> when the property
  is missing or \<open>undefined\<close>. \<open>onParseError === "fallback" && defaultValue\<close> is the
  default itself when it is truthy, so \<open>shouldFallback\<close> carries the string that
  \<open>searchParams.set(key, defaultValue)\<close> writes.
\<close>

definition updateQueryState ::
  "string \<times> string \<Rightarrow> params \<Rightarrow> options option \<Rightarrow> params" where
  "updateQueryState updates searchParams options =
     (let key = fst updates; val = snd updates in
      case options of
        None \<Rightarrow>
          (if val \<noteq> [] then URLSearchParams_set key val searchParams
           else URLSearchParams_delete key searchParams)
      | Some opts \<Rightarrow>
          (let dflt = prop_value (defaultValue opts);
               mode = (case prop_value (onParseError opts) of None \<Rightarrow> Fallback | Some m \<Rightarrow> m);
               shouldFallback = (if mode = Fallback \<and> truthy dflt then dflt else None);
               shouldRemove = (mode = Remove \<or> \<not> truthy dflt);
               no_schema_result =
                 (if val = [] \<and> shouldFallback \<noteq> None
                    then (case shouldFallback of
                            Some d \<Rightarrow> URLSearchParams_set key d searchParams
                          | None \<Rightarrow> searchParams)
                  else if val = [] \<and> shouldRemove
                    then URLSearchParams_delete key searchParams
                  else if val \<noteq> [] then URLSearchParams_set key val searchParams
                  else searchParams)
           in case prop_value (schema opts) of
                None \<Rightarrow> no_schema_result
              | Some safeParse \<Rightarrow>
                  (case safeParse val of
                     Some data \<Rightarrow> URLSearchParams_set key data searchParams
                   | None \<Rightarrow>
                       (case shouldFallback of
                          Some d \<Rightarrow> URLSearchParams_set key d searchParams
                        | None \<Rightarrow>
                            if shouldRemove then URLSearchParams_delete key searchParams
                            else no_schema_result))))"

subsection \<open>\<open>createQueryState\<close>\<close>

text \<open>
  \<open>CreateQueryStateArgs\<close> is a union of two shapes: one \<open>[key, value]\<close> pair with one
  options object, or a non-empty array of pairs (\<open>NonEmptyArray\<close>: a first element and
  the rest) with a record of options by key. \<open>Array.isArray(updates[0])\<close> tells them
  apart at run time. \<open>options?.[key]\<close> on the record is \<open>undefined\<close> when there is no
  record or no entry.
\<close>

datatype CreateQueryStateArgs =
    OneUpdate "string \<times> string" string "options option"
  | ManyUpdates "string \<times> string" "(string \<times> string) list" string
      "(string \<Rightarrow> options option) option"

definition options_for :: "(string \<Rightarrow> options option) option \<Rightarrow> string \<Rightarrow> options option" where
  "options_for by_key key = (case by_key of None \<Rightarrow> None | Some r \<Rightarrow> r key)"

fun createQueryState :: "CreateQueryStateArgs \<Rightarrow> params" where
  "createQueryState (OneUpdate updates searchParams options) =
     updateQueryState updates (URLSearchParams_new searchParams) options"
| "createQueryState (ManyUpdates u us searchParams by_key) =
     foldl (\<lambda>urlSearchParams upd.
              updateQueryState upd urlSearchParams (options_for by_key (fst upd)))
       (URLSearchParams_new searchParams) (u # us)"

subsection \<open>\<open>useQueryState\<close>\<close>

text \<open>
  The refs of one hook instance. \<open>stableSearchParams\<close> starts as \<open>null\<close>. The router
  and the pathname come from the environment: every function below takes the pathname
  and returns, next to the new refs, the URLs it passed to \<open>router.replace\<close>, in order.
\<close>

record query_refs =
  q_stableKey :: string
  q_stableOptions :: "options option"
  q_stableSearchParams :: "params option"

definition useQueryState_refs :: "string \<Rightarrow> options option \<Rightarrow> query_refs" where
  "useQueryState_refs key options =
     \<lparr>q_stableKey = key, q_stableOptions = options, q_stableSearchParams = None\<rparr>"

text \<open>\<^verbatim>\<open>`${pathname}?${newSearchParams}`\<close>\<close>

definition replace_url :: "string \<Rightarrow> string \<Rightarrow> string" where
  "replace_url pathname newSearchParams = pathname @ ''?'' @ newSearchParams"

text \<open>
  \<open>setQueryState\<close>. \<open>existingSearchParams\<close> is \<open>undefined\<close> while the ref is \<open>null\<close>;
  then the base is the empty string and \<open>newSearchParams === existingSearchParams\<close> is
  false.
\<close>

definition setQueryState :: "string \<Rightarrow> query_refs \<Rightarrow> string \<Rightarrow> query_refs \<times> string list" where
  "setQueryState pathname refs val =
     (let existingSearchParams = map_option URLSearchParams_toString (q_stableSearchParams refs);
          urlSearchParams =
            createQueryState
              (OneUpdate (q_stableKey refs, val)
                 (case existingSearchParams of None \<Rightarrow> [] | Some s \<Rightarrow> s)
                 (q_stableOptions refs));
          newSearchParams = URLSearchParams_toString urlSearchParams
      in if Some newSearchParams = existingSearchParams then (refs, [])
         else (refs\<lparr>q_stableSearchParams := Some urlSearchParams\<rparr>,
               [replace_url pathname newSearchParams]))"

text \<open>The effect of \<open>useQueryState\<close>, run with the \<open>searchParams\<close> it observes.\<close>

definition useQueryState_effect ::
  "string \<Rightarrow> query_refs \<Rightarrow> params \<Rightarrow> query_refs \<times> string list" where
  "useQueryState_effect pathname refs searchParams =
     (let isInitialMount = (q_stableSearchParams refs = None);
          refs1 = (if isInitialMount then refs\<lparr>q_stableSearchParams := Some searchParams\<rparr>
                   else refs);
          val = (case URLSearchParams_get searchParams (q_stableKey refs1) of
                   None \<Rightarrow> [] | Some v \<Rightarrow> v)
      in if shouldUpdateQueryState (q_stableKey refs1) val (q_stableOptions refs1)
              (URLSearchParams_has searchParams (q_stableKey refs1))
              (q_stableSearchParams refs1) isInitialMount
         then setQueryState pathname (refs1\<lparr>q_stableSearchParams := Some searchParams\<rparr>) val
         else (refs1, []))"

subsection \<open>\<open>useQueriesState\<close>\<close>

record queries_refs =
  qs_stableKeys :: "string list"
  qs_stableOptions :: "(string \<Rightarrow> options option) option"
  qs_stableSearchParams :: "params option"
  qs_paramUpdates :: "(string \<times> string) list"

text \<open>
  The body of \<open>useQueriesState\<close> stores \<open>keys\<close> as given (\<open>useRef(keys as K[number][])\<close>);
  it has no check of its own.
\<close>

definition useQueriesState_refs ::
  "string list \<Rightarrow> (string \<Rightarrow> options option) option \<Rightarrow> queries_refs" where
  "useQueriesState_refs keys options =
     \<lparr>qs_stableKeys = keys, qs_stableOptions = options, qs_stableSearchParams = None,
      qs_paramUpdates = []\<rparr>"

text \<open>\<open>_updateSearchParams\<close>, called with a non-empty array of updates.\<close>

definition updateSearchParams ::
  "string \<Rightarrow> queries_refs \<Rightarrow> string \<times> string \<Rightarrow> (string \<times> string) list \<Rightarrow>
   queries_refs \<times> string list" where
  "updateSearchParams pathname refs u us =
     (let existingSearchParams = map_option URLSearchParams_toString (qs_stableSearchParams refs);
          urlSearchParams =
            createQueryState
              (ManyUpdates u us
                 (case existingSearchParams of None \<Rightarrow> [] | Some s \<Rightarrow> s)
                 (qs_stableOptions refs));
          newSearchParams = URLSearchParams_toString urlSearchParams
      in if Some newSearchParams = existingSearchParams then (refs, [])
         else (refs\<lparr>qs_stableSearchParams := Some urlSearchParams\<rparr>,
               [replace_url pathname newSearchParams]))"

text \<open>\<open>setQueryStrings(key, value)\<close> is \<open>_updateSearchParams([[key, value]])\<close>.\<close>

definition setQueryStrings ::
  "string \<Rightarrow> queries_refs \<Rightarrow> string \<Rightarrow> string \<Rightarrow> queries_refs \<times> string list" where
  "setQueryStrings pathname refs key val = updateSearchParams pathname refs (key, val) []"

text \<open>
  One round of the \<open>for\<close> loop of the effect, for one key: the key may be pushed on
  \<open>_paramUpdates\<close>; then, still inside the loop body, a non-empty \<open>_paramUpdates\<close> is
  committed and emptied.
\<close>

definition effect_body ::
  "string \<Rightarrow> params \<Rightarrow> bool \<Rightarrow> string \<Rightarrow> queries_refs \<Rightarrow> queries_refs \<times> string list" where
  "effect_body pathname searchParams isInitialMount key refs =
     (let val = (case URLSearchParams_get searchParams key of None \<Rightarrow> [] | Some v \<Rightarrow> v);
          refs1 =
            (if shouldUpdateQueryState key val (options_for (qs_stableOptions refs) key)
                  (URLSearchParams_has searchParams key) (qs_stableSearchParams refs)
                  isInitialMount
             then refs\<lparr>qs_paramUpdates := qs_paramUpdates refs @ [(key, val)]\<rparr>
             else refs)
      in case qs_paramUpdates refs1 of
           [] \<Rightarrow> (refs1, [])
         | u # us \<Rightarrow>
             (let (refs2, urls) =
                    updateSearchParams pathname
                      (refs1\<lparr>qs_stableSearchParams := Some searchParams\<rparr>) u us
              in (refs2\<lparr>qs_paramUpdates := []\<rparr>, urls)))"

text \<open>The loop runs the body for each key of \<open>_stableKeys\<close> in order.\<close>

fun effect_loop ::
  "string \<Rightarrow> params \<Rightarrow> bool \<Rightarrow> string list \<Rightarrow> queries_refs \<Rightarrow> queries_refs \<times> string list" where
  "effect_loop pathname searchParams isInitialMount [] refs = (refs, [])"
| "effect_loop pathname searchParams isInitialMount (key # keys) refs =
     (let (refs1, urls1) = effect_body pathname searchParams isInitialMount key refs;
          (refs2, urls2) = effect_loop pathname searchParams isInitialMount keys refs1
      in (refs2, urls1 @ urls2))"

definition useQueriesState_effect ::
  "string \<Rightarrow> queries_refs \<Rightarrow> params \<Rightarrow> queries_refs \<times> string list" where
  "useQueriesState_effect pathname refs searchParams =
     (let isInitialMount = (qs_stableSearchParams refs = None);
          refs1 = (if isInitialMount then refs\<lparr>qs_stableSearchParams := Some searchParams\<rparr>
                   else refs)
      in effect_loop pathname searchParams isInitialMount (qs_stableKeys refs1) refs1)"

subsection \<open>Sequences of calls\<close>

text \<open>
  What a hook instance meets during its life: the effect runs with an observed
  snapshot, or a caller invokes the setter. \<open>run_steps\<close> threads a state through a
  list of events and collects what each step puts out, such as the URLs passed to
  \<open>router.replace\<close>.
\<close>

datatype 'a hook_event = Observed params | SetCalled 'a

fun run_steps :: "('s \<Rightarrow> 'e \<Rightarrow> 's \<times> 'o list) \<Rightarrow> 's \<Rightarrow> 'e list \<Rightarrow> 's \<times> 'o list" where
  "run_steps step s [] = (s, [])"
| "run_steps step s (e # es) =
     (let (s1, out1) = step s e;
          (s2, out2) = run_steps step s1 es
      in (s2, out1 @ out2))"

fun useQueryState_step ::
  "string \<Rightarrow> query_refs \<Rightarrow> string hook_event \<Rightarrow> query_refs \<times> string list" where
  "useQueryState_step pathname refs (Observed searchParams) =
     useQueryState_effect pathname refs searchParams"
| "useQueryState_step pathname refs (SetCalled val) = setQueryState pathname refs val"

fun useQueriesState_step ::
  "string \<Rightarrow> queries_refs \<Rightarrow> (string \<times> string) hook_event \<Rightarrow> queries_refs \<times> string list" where
  "useQueriesState_step pathname refs (Observed searchParams) =
     useQueriesState_effect pathname refs searchParams"
| "useQueriesState_step pathname refs (SetCalled (key, val)) =
     setQueryStrings pathname refs key val"

section \<open>\<open>src/lib/types.ts\<close>: \<open>UniqueArray\<close>\<close>

text \<open>
  \<open>DuplicateElements\<close> is a program on types, run by the type checker. On a tuple of
  string literal types it is a function on lists: a union of literal types is a set,
  \<open>never\<close> the empty set, and \<open>First extends Seen\<close> is membership. \<open>UniqueArray<T>\<close> is
  \<open>T\<close> itself when \<open>DuplicateElements<T>\<close> is \<open>never\<close>, and otherwise a branded type that
  no array literal has: the call type-checks exactly in the first case.
\<close>

fun DuplicateElements :: "string list \<Rightarrow> string set \<Rightarrow> string set \<Rightarrow> string set" where
  "DuplicateElements [] seen duplicates = duplicates"
| "DuplicateElements (first # rest) seen duplicates =
     (if first \<in> seen then DuplicateElements rest seen (insert first duplicates)
      else DuplicateElements rest (insert first seen) duplicates)"

definition UniqueArray_accepts :: "string list \<Rightarrow> bool" where
  "UniqueArray_accepts keys = (DuplicateElements keys {} {} = {})"

section \<open>The specification's readings\<close>

text \<open>
  The resolution policy in the specification's words: the outcome for one key is to set
  it to a value or to delete it.
\<close>

datatype action = SetTo string | DeleteKey

fun apply_action :: "string \<Rightarrow> action \<Rightarrow> params \<Rightarrow> params" where
  "apply_action key (SetTo v) ps = URLSearchParams_set key v ps"
| "apply_action key DeleteKey ps = URLSearchParams_delete key ps"

text \<open>
  Two readings of "a default exists": a \<open>defaultValue\<close> was supplied, or a
  \<open>defaultValue\<close> was supplied and is not the empty string.
\<close>

definition default_supplied :: "options \<Rightarrow> bool" where
  "default_supplied opts =
     (case prop_value (defaultValue opts) of None \<Rightarrow> False | Some d \<Rightarrow> True)"

definition default_nonempty :: "options \<Rightarrow> bool" where
  "default_nonempty opts =
     (case prop_value (defaultValue opts) of None \<Rightarrow> False | Some d \<Rightarrow> d \<noteq> [])"

definition the_default :: "options \<Rightarrow> string" where
  "the_default opts = (case prop_value (defaultValue opts) of None \<Rightarrow> [] | Some d \<Rightarrow> d)"

definition has_validator :: "options \<Rightarrow> bool" where
  "has_validator opts =
     (case prop_value (schema opts) of None \<Rightarrow> False | Some validator \<Rightarrow> True)"

definition onInvalid :: "options \<Rightarrow> parse_error_mode" where
  "onInvalid opts = (case prop_value (onParseError opts) of None \<Rightarrow> Fallback | Some m \<Rightarrow> m)"

text \<open>
  The decision procedure as the specification words it, over a reading of "a default
  exists". On a failed validation and on an empty raw value the default is set under
  \<open>"fallback"\<close> when a default exists; the key is deleted under \<open>"remove"\<close> or when no
  default exists, which is every other case.
\<close>

definition resolve :: "(options \<Rightarrow> bool) \<Rightarrow> string \<Rightarrow> options option \<Rightarrow> action" where
  "resolve default_exists rawValue options =
     (case options of
        None \<Rightarrow> if rawValue \<noteq> [] then SetTo rawValue else DeleteKey
      | Some opts \<Rightarrow>
          (case prop_value (schema opts) of
             Some validator \<Rightarrow>
               (case validator rawValue of
                  Some normalized \<Rightarrow> SetTo normalized
                | None \<Rightarrow>
                    if onInvalid opts = Fallback \<and> default_exists opts
                    then SetTo (the_default opts)
                    else DeleteKey)
           | None \<Rightarrow>
               if rawValue = [] then
                 (if default_exists opts \<and> onInvalid opts = Fallback
                  then SetTo (the_default opts)
                  else DeleteKey)
               else SetTo rawValue))"

text \<open>
  The reconciliation predicate as the specification words it. Options are configured
  when an options object with at least one property was given.
\<close>

definition options_configured :: "options option \<Rightarrow> bool" where
  "options_configured options =
     (case options of
        None \<Rightarrow> False
      | Some opts \<Rightarrow>
          has_key (defaultValue opts) \<or> has_key (schema opts) \<or> has_key (onParseError opts))"

definition needsCorrection ::
  "(options \<Rightarrow> bool) \<Rightarrow> string \<Rightarrow> string \<Rightarrow> bool \<Rightarrow> bool \<Rightarrow> options option \<Rightarrow>
   params option \<Rightarrow> bool" where
  "needsCorrection default_exists key rawValue paramExists isInitialObservation options
       previousSnapshot =
     (let with_default = (case options of None \<Rightarrow> False | Some opts \<Rightarrow> default_exists opts);
          dflt = (case options of None \<Rightarrow> None | Some opts \<Rightarrow> prop_value (defaultValue opts));
          with_validator = (case options of None \<Rightarrow> False | Some opts \<Rightarrow> has_validator opts);
          previous_value =
            (case previousSnapshot of None \<Rightarrow> None | Some prev \<Rightarrow> URLSearchParams_get prev key)
      in if \<not> options_configured options \<and> paramExists \<and> rawValue \<noteq> [] then False
         else (isInitialObservation \<and> with_default \<and> Some rawValue \<noteq> dflt) \<or>
              (isInitialObservation \<and> \<not> with_default \<and> with_validator) \<or>
              (paramExists \<and> rawValue = []) \<or>
              (\<not> paramExists \<and> with_default) \<or>
              (with_validator \<and> Some rawValue \<noteq> previous_value))"

text \<open>
  For the frame of a commit: the pairs of a snapshot whose name is not among the
  tracked keys, in order; the snapshot a URL passed to \<open>router.replace\<close> carries; and
  the snapshot a commit starts from (empty while nothing is remembered).
\<close>

definition untracked :: "string list \<Rightarrow> params \<Rightarrow> params" where
  "untracked keys ps = filter (\<lambda>p. fst p \<notin> set keys) ps"

definition committed_params :: "string \<Rightarrow> string \<Rightarrow> params" where
  "committed_params pathname url = URLSearchParams_new (drop (length pathname + 1) url)"

definition base_params :: "params option \<Rightarrow> params" where
  "base_params remembered = (case remembered of None \<Rightarrow> [] | Some ps \<Rightarrow> ps)"

section \<open>The hook and the address bar\<close>

text \<open>
  The single-key hook together with the snapshot it watches. The live snapshot changes
  when the hook commits (\<open>router.replace\<close> makes the committed URL the current one, and
  the next \<open>useSearchParams()\<close> is parsed from it) or when someone else writes it; the
  effect always runs with the live snapshot. The log lists the commits in order, with a
  mark wherever another writer changed the snapshot.
\<close>

datatype world_event = SetterCalled string | EffectRan | OutsideWrite params

datatype log_entry = Commit string | OutsideChange

definition navigate :: "string \<Rightarrow> params \<Rightarrow> string list \<Rightarrow> params" where
  "navigate pathname live urls =
     (case urls of [] \<Rightarrow> live | u # us \<Rightarrow> committed_params pathname (last urls))"

fun useQueryState_world_step ::
  "string \<Rightarrow> query_refs \<times> params \<Rightarrow> world_event \<Rightarrow> (query_refs \<times> params) \<times> log_entry list" where
  "useQueryState_world_step pathname (refs, live) (SetterCalled val) =
     (let (refs1, urls) = setQueryState pathname refs val
      in ((refs1, navigate pathname live urls), map Commit urls))"
| "useQueryState_world_step pathname (refs, live) EffectRan =
     (let (refs1, urls) = useQueryState_effect pathname refs live
      in ((refs1, navigate pathname live urls), map Commit urls))"
| "useQueryState_world_step pathname (refs, live) (OutsideWrite snapshot) =
     ((refs, snapshot), [OutsideChange])"

text \<open>No two commits that stand next to each other in the log are equal.\<close>

fun no_repeated_commit :: "log_entry list \<Rightarrow> bool" where
  "no_repeated_commit (Commit a # Commit b # rest) =
     (a \<noteq> b \<and> no_repeated_commit (Commit b # rest))"
| "no_repeated_commit (e # rest) = no_repeated_commit rest"
| "no_repeated_commit [] = True"

section \<open>Example configurations\<close>

text \<open>A schema like \<open>z.enum([...])\<close>: it accepts the listed strings and returns them.\<close>

definition enum_schema :: "string list \<Rightarrow> string \<Rightarrow> string option" where
  "enum_schema allowed s = (if s \<in> set allowed then Some s else None)"

text \<open>
  \<^verbatim>\<open>{ page: { defaultValue: "1" },
    sort: { defaultValue: "name", schema: z.enum(["name", "date"]) } }\<close>
\<close>

definition page_sort_options :: "string \<Rightarrow> options option" where
  "page_sort_options key =
     (if key = ''page'' then
        Some \<lparr>defaultValue = Val ''1'', schema = Missing, onParseError = Missing\<rparr>
      else if key = ''sort'' then
        Some \<lparr>defaultValue = Val ''name'', schema = Val (enum_schema [''name'', ''date'']),
              onParseError = Missing\<rparr>
      else None)"

text \<open>\<^verbatim>\<open>{ defaultValue: "" }\<close> and \<^verbatim>\<open>{ defaultValue: "d" }\<close>\<close>

definition empty_default_options :: options where
  "empty_default_options = \<lparr>defaultValue = Val [], schema = Missing, onParseError = Missing\<rparr>"

definition d_default_options :: options where
  "d_default_options = \<lparr>defaultValue = Val ''d'', schema = Missing, onParseError = Missing\<rparr>"

section \<open>Serialising and parsing are inverse\<close>

lemma hex_value_hex_digit: "n < 16 \<Longrightarrow> hex_value (hex_digit n) = Some n"
proof -
  assume "n < 16"
  then have "n \<in> {0, 1, 2, 3, 4, 5, 6, 7, 8, 9, 10, 11, 12, 13, 14, 15}" by simp arith
  then show ?thesis
    by (elim insertE emptyE) (simp_all add: hex_digit_def hex_value_def)
qed

lemma percent_decode_plain:
  "c \<noteq> CHR ''%'' \<Longrightarrow> percent_decode (c # cs) = c # percent_decode cs"
  by (cases "(c # cs)" rule: percent_decode.cases) simp_all

lemma percent_decode_escape:
  "hex_value h1 = Some a \<Longrightarrow> hex_value h2 = Some b \<Longrightarrow>
   percent_decode (CHR ''%'' # h1 # h2 # rest) = char_of (16 * a + b) # percent_decode rest"
  by simp

lemma hex_digit_not_plus: "n < 16 \<Longrightarrow> hex_digit n \<noteq> CHR ''+''"
  using hex_value_hex_digit [of n] by (auto simp: hex_value_def)

lemma urlencoded_byte_decode:
  "percent_decode (plus_to_space (urlencoded_byte c @ rest)) =
     c # percent_decode (plus_to_space rest)"
proof -
  let ?n = "of_char c :: nat"
  have hi: "?n div 16 < 16" and lo: "?n mod 16 < 16"
    using nat_of_char_less_256 [of c] by (arith+)
  have recompose: "char_of (16 * (?n div 16) + ?n mod 16) = c"
    by simp
  show ?thesis
  proof (cases "c = CHR '' ''")
    case True
    then show ?thesis
      by (simp add: urlencoded_byte_def plus_to_space_def percent_decode_plain)
  next
    case False
    show ?thesis
    proof (cases "urlencoded_unreserved c")
      case True
      then have "c \<noteq> CHR ''%''" "c \<noteq> CHR ''+''"
        by (auto simp: urlencoded_unreserved_def)
      with True False show ?thesis
        by (simp add: urlencoded_byte_def plus_to_space_def percent_decode_plain)
    next
      case reserved: False
      have "plus_to_space (urlencoded_byte c @ rest) =
              CHR ''%'' # hex_digit (?n div 16) # hex_digit (?n mod 16) # plus_to_space rest"
        using False reserved hex_digit_not_plus [OF hi] hex_digit_not_plus [OF lo]
        by (simp add: urlencoded_byte_def percent_encode_byte_def plus_to_space_def)
      then show ?thesis
        using percent_decode_escape [OF hex_value_hex_digit [OF hi] hex_value_hex_digit [OF lo]]
          recompose by simp
    qed
  qed
qed

lemma urlencoded_string_decode:
  "percent_decode (plus_to_space (urlencoded_string s)) = s"
proof (induction s)
  case Nil
  show ?case by (simp add: urlencoded_string_def plus_to_space_def)
next
  case (Cons c s)
  have "urlencoded_string (c # s) = urlencoded_byte c @ urlencoded_string s"
    by (simp add: urlencoded_string_def)
  with Cons show ?case
    by (simp add: urlencoded_byte_decode)
qed

text \<open>An encoded name or value holds none of the separators.\<close>

lemma urlencoded_byte_chars:
  "x \<in> set (urlencoded_byte c) \<Longrightarrow>
   x \<noteq> CHR ''&'' \<and> x \<noteq> CHR ''='' \<and> x \<noteq> CHR ''?''"
proof -
  let ?n = "of_char c :: nat"
  assume x: "x \<in> set (urlencoded_byte c)"
  have hi: "?n div 16 < 16" and lo: "?n mod 16 < 16"
    using nat_of_char_less_256 [of c] by (arith+)
  have hex: "hex_value x \<noteq> None \<Longrightarrow> ?thesis"
    by (auto simp: hex_value_def)
  from x consider "x = CHR ''+''" | "urlencoded_unreserved x" | "x = CHR ''%''"
    | "x = hex_digit (?n div 16)" | "x = hex_digit (?n mod 16)"
    by (auto simp: urlencoded_byte_def percent_encode_byte_def split: if_splits)
  then show ?thesis
  proof cases
    case 2
    then show ?thesis by (auto simp: urlencoded_unreserved_def)
  next
    case 4
    then show ?thesis using hex hex_value_hex_digit [OF hi] by simp
  next
    case 5
    then show ?thesis using hex hex_value_hex_digit [OF lo] by simp
  qed simp_all
qed

lemma urlencoded_string_chars:
  "x \<in> set (urlencoded_string s) \<Longrightarrow>
   x \<noteq> CHR ''&'' \<and> x \<noteq> CHR ''='' \<and> x \<noteq> CHR ''?''"
  unfolding urlencoded_string_def using urlencoded_byte_chars by auto

lemma split_on_no_delim: "d \<notin> set a \<Longrightarrow> split_on d a = [a]"
  by (induction a) auto

lemma split_on_append: "d \<notin> set a \<Longrightarrow> split_on d (a @ d # b) = a # split_on d b"
  by (induction a) auto

lemma parse_pair_encoded:
  "parse_pair (urlencoded_string n @ CHR ''='' # urlencoded_string v) = (n, v)"
proof -
  have "takeWhile (\<lambda>c. c \<noteq> CHR ''='') (urlencoded_string n @ CHR ''='' # urlencoded_string v)
          = urlencoded_string n"
    using urlencoded_string_chars [of _ n] by (subst takeWhile_append2) auto
  then show ?thesis
    by (simp add: parse_pair_def urlencoded_string_decode)
qed

lemma pair_chars:
  "x \<in> set (urlencoded_string n @ CHR ''='' # urlencoded_string v) \<Longrightarrow>
   x \<noteq> CHR ''&'' \<and> x \<noteq> CHR ''?''"
  using urlencoded_string_chars [of x n] urlencoded_string_chars [of x v] by auto

lemma urlencoded_parse_toString:
  "urlencoded_parse (URLSearchParams_toString ps) = ps"
proof (induction ps rule: URLSearchParams_toString.induct)
  case 1
  show ?case by (simp add: urlencoded_parse_def)
next
  case (2 n v)
  have "CHR ''&'' \<notin> set (urlencoded_string n @ CHR ''='' # urlencoded_string v)"
    using pair_chars by blast
  then show ?case
    by (simp add: urlencoded_parse_def split_on_no_delim parse_pair_encoded)
next
  case (3 n v p ps)
  have "CHR ''&'' \<notin> set (urlencoded_string n @ CHR ''='' # urlencoded_string v)"
    using pair_chars by blast
  from split_on_append [OF this, of "URLSearchParams_toString (p # ps)"] 3
  show ?case
    by (simp add: urlencoded_parse_def parse_pair_encoded)
qed

lemma toString_no_question_mark:
  "CHR ''?'' \<notin> set (URLSearchParams_toString ps)"
proof (induction ps rule: URLSearchParams_toString.induct)
  case (2 n v)
  show ?case using pair_chars [of "CHR ''?''" n v] by auto
next
  case (3 n v p ps)
  then show ?case using pair_chars [of "CHR ''?''" n v] by auto
qed simp

lemma URLSearchParams_roundtrip:
  "URLSearchParams_new (URLSearchParams_toString ps) = ps"
proof (cases "URLSearchParams_toString ps")
  case Nil
  then show ?thesis
    using urlencoded_parse_toString [of ps] by (simp add: URLSearchParams_new_def)
next
  case (Cons c cs)
  then have "c \<noteq> CHR ''?''"
    using toString_no_question_mark [of ps] by auto
  with Cons show ?thesis
    using urlencoded_parse_toString [of ps] by (simp add: URLSearchParams_new_def)
qed

lemma URLSearchParams_toString_inject:
  "URLSearchParams_toString a = URLSearchParams_toString b \<longleftrightarrow> a = b"
proof
  assume "URLSearchParams_toString a = URLSearchParams_toString b"
  then have "URLSearchParams_new (URLSearchParams_toString a) =
      URLSearchParams_new (URLSearchParams_toString b)"
    by (rule arg_cong)
  then show "a = b"
    by (simp only: URLSearchParams_roundtrip)
next
  assume "a = b"
  then show "URLSearchParams_toString a = URLSearchParams_toString b"
    by (rule arg_cong)
qed

lemma URLSearchParams_new_empty: "URLSearchParams_new [] = []"
  by (simp add: URLSearchParams_new_def urlencoded_parse_def)

section \<open>The policy and the predicate\<close>

lemma updateQueryState_action:
  "updateQueryState (key, rawValue) searchParams options =
     apply_action key (resolve default_nonempty rawValue options) searchParams"
proof (cases options)
  case None
  then show ?thesis by (simp add: updateQueryState_def resolve_def)
next
  case (Some opts)
  consider (unset) "prop_value (onParseError opts) = None"
    | (fallback) "prop_value (onParseError opts) = Some Fallback"
    | (remove) "prop_value (onParseError opts) = Some Remove"
    by (cases "prop_value (onParseError opts)") (auto intro: parse_error_mode.exhaust)
  then show ?thesis
  proof cases
    case unset
    show ?thesis
      unfolding Some
      by (cases "prop_value (defaultValue opts)")
        (simp_all add: unset updateQueryState_def resolve_def default_nonempty_def
          the_default_def onInvalid_def Let_def split: option.splits)
  next
    case fallback
    show ?thesis
      unfolding Some
      by (cases "prop_value (defaultValue opts)")
        (simp_all add: fallback updateQueryState_def resolve_def default_nonempty_def
          the_default_def onInvalid_def Let_def split: option.splits)
  next
    case remove
    show ?thesis
      unfolding Some
      by (cases "prop_value (defaultValue opts)")
        (simp_all add: remove updateQueryState_def resolve_def default_nonempty_def
          the_default_def onInvalid_def Let_def split: option.splits)
  qed
qed

lemma DuplicateElements_empty_iff:
  "DuplicateElements keys seen duplicates = {} \<longleftrightarrow>
     duplicates = {} \<and> distinct keys \<and> set keys \<inter> seen = {}"
  by (induction keys arbitrary: seen duplicates) auto

section \<open>The commit paths\<close>

lemma drop_replace_url:
  "drop (length pathname + 1) (replace_url pathname qs) = qs"
  by (simp add: replace_url_def)

lemma committed_params_replace_url:
  "committed_params pathname (replace_url pathname (URLSearchParams_toString ps)) = ps"
  by (simp only: committed_params_def drop_replace_url URLSearchParams_roundtrip)

lemma replace_url_inject:
  "replace_url pathname a = replace_url pathname b \<longleftrightarrow> a = b"
  by (simp add: replace_url_def)

lemma commit_url_inject:
  "replace_url pathname (URLSearchParams_toString a) =
     replace_url pathname (URLSearchParams_toString b) \<longleftrightarrow> a = b"
  by (simp only: replace_url_inject URLSearchParams_toString_inject)

lemma parse_remembered:
  "URLSearchParams_new
     (case map_option URLSearchParams_toString remembered of None \<Rightarrow> [] | Some s \<Rightarrow> s) =
   base_params remembered"
  by (cases remembered)
    (simp_all add: base_params_def URLSearchParams_new_empty URLSearchParams_roundtrip)

lemma same_serialization:
  "Some (URLSearchParams_toString c) = map_option URLSearchParams_toString remembered \<longleftrightarrow>
   remembered = Some c"
  by (cases remembered) (auto simp: URLSearchParams_toString_inject)

lemma setQueryState_cases:
  "setQueryState pathname refs val =
     (let c = updateQueryState (q_stableKey refs, val)
                (base_params (q_stableSearchParams refs)) (q_stableOptions refs)
      in if q_stableSearchParams refs = Some c then (refs, [])
         else (refs\<lparr>q_stableSearchParams := Some c\<rparr>,
               [replace_url pathname (URLSearchParams_toString c)]))"
  unfolding setQueryState_def Let_def createQueryState.simps parse_remembered same_serialization
  by simp

lemma updateSearchParams_cases:
  "updateSearchParams pathname refs u us =
     (let c = foldl (\<lambda>ps upd.
                  updateQueryState upd ps (options_for (qs_stableOptions refs) (fst upd)))
                (base_params (qs_stableSearchParams refs)) (u # us)
      in if qs_stableSearchParams refs = Some c then (refs, [])
         else (refs\<lparr>qs_stableSearchParams := Some c\<rparr>,
               [replace_url pathname (URLSearchParams_toString c)]))"
  unfolding updateSearchParams_def Let_def createQueryState.simps parse_remembered
    same_serialization
  by simp

section \<open>Runs of setter calls\<close>

lemma run_steps_Cons:
  "run_steps step s (e # es) =
     (fst (run_steps step (fst (step s e)) es),
      snd (step s e) @ snd (run_steps step (fst (step s e)) es))"
  by (simp add: case_prod_unfold Let_def)

lemma run_steps_distinct_adj:
  assumes step: "\<And>s e. step s e = (s, []) \<or>
      (\<exists>c. step s e = (put s c, [url c]) \<and> remembered (put s c) = Some c \<and>
           remembered s \<noteq> Some c)"
    and inj: "\<And>a b. url a = url b \<Longrightarrow> a = b"
  shows "distinct_adj (snd (run_steps step s es)) \<and>
     (\<forall>c. remembered s = Some c \<longrightarrow> distinct_adj (url c # snd (run_steps step s es)))"
proof (induction es arbitrary: s)
  case Nil
  show ?case by simp
next
  case (Cons e es)
  from step [of s e] show ?case
  proof
    assume "step s e = (s, [])"
    then show ?thesis using Cons [of s] unfolding run_steps_Cons by simp
  next
    assume "\<exists>c. step s e = (put s c, [url c]) \<and> remembered (put s c) = Some c \<and>
        remembered s \<noteq> Some c"
    then obtain c where c: "step s e = (put s c, [url c])"
      and rem: "remembered (put s c) = Some c" and differs: "remembered s \<noteq> Some c"
      by blast
    let ?rest = "snd (run_steps step (put s c) es)"
    have run: "snd (run_steps step s (e # es)) = url c # ?rest"
      using c unfolding run_steps_Cons by simp
    from Cons [of "put s c"] rem have rest: "distinct_adj (url c # ?rest)"
      by blast
    moreover have "\<forall>d. remembered s = Some d \<longrightarrow> url d \<noteq> url c"
      using differs inj by blast
    ultimately show ?thesis
      unfolding run by simp
  qed
qed

lemma setQueryState_run_distinct_adj:
  "distinct_adj (snd (run_steps (setQueryState pathname) refs vals)) \<and>
   (\<forall>c. q_stableSearchParams refs = Some c \<longrightarrow>
        distinct_adj (replace_url pathname (URLSearchParams_toString c) #
          snd (run_steps (setQueryState pathname) refs vals)))"
proof (rule run_steps_distinct_adj
    [where put = "\<lambda>refs c. refs\<lparr>q_stableSearchParams := Some c\<rparr>"
      and url = "\<lambda>c. replace_url pathname (URLSearchParams_toString c)"
      and remembered = q_stableSearchParams])
  fix s e
  show "setQueryState pathname s e = (s, []) \<or>
      (\<exists>c. setQueryState pathname s e =
            (s\<lparr>q_stableSearchParams := Some c\<rparr>,
             [replace_url pathname (URLSearchParams_toString c)]) \<and>
           q_stableSearchParams (s\<lparr>q_stableSearchParams := Some c\<rparr>) = Some c \<and>
           q_stableSearchParams s \<noteq> Some c)"
    by (auto simp add: setQueryState_cases Let_def)
next
  fix a b
  assume "replace_url pathname (URLSearchParams_toString a) =
      replace_url pathname (URLSearchParams_toString b)"
  then show "a = b" by (simp only: commit_url_inject)
qed

lemma setQueryStrings_run_distinct_adj:
  "distinct_adj
     (snd (run_steps (\<lambda>refs kv. setQueryStrings pathname refs (fst kv) (snd kv)) refs kvs)) \<and>
   (\<forall>c. qs_stableSearchParams refs = Some c \<longrightarrow>
        distinct_adj (replace_url pathname (URLSearchParams_toString c) #
          snd (run_steps (\<lambda>refs kv. setQueryStrings pathname refs (fst kv) (snd kv))
                 refs kvs)))"
proof (rule run_steps_distinct_adj
    [where put = "\<lambda>refs c. refs\<lparr>qs_stableSearchParams := Some c\<rparr>"
      and url = "\<lambda>c. replace_url pathname (URLSearchParams_toString c)"
      and remembered = qs_stableSearchParams])
  fix s e
  show "setQueryStrings pathname s (fst e) (snd e) = (s, []) \<or>
      (\<exists>c. setQueryStrings pathname s (fst e) (snd e) =
            (s\<lparr>qs_stableSearchParams := Some c\<rparr>,
             [replace_url pathname (URLSearchParams_toString c)]) \<and>
           qs_stableSearchParams (s\<lparr>qs_stableSearchParams := Some c\<rparr>) = Some c \<and>
           qs_stableSearchParams s \<noteq> Some c)"
    by (auto simp add: setQueryStrings_def updateSearchParams_cases Let_def)
next
  fix a b
  assume "replace_url pathname (URLSearchParams_toString a) =
      replace_url pathname (URLSearchParams_toString b)"
  then show "a = b" by (simp only: commit_url_inject)
qed

section \<open>Reconciliation passes\<close>

lemma setQueryState_url:
  "url \<in> set (snd (setQueryState pathname refs val)) \<Longrightarrow>
   \<exists>c. url = replace_url pathname (URLSearchParams_toString c) \<and>
       c = updateQueryState (q_stableKey refs, val) (base_params (q_stableSearchParams refs))
             (q_stableOptions refs) \<and>
       q_stableSearchParams refs \<noteq> Some c"
  by (simp add: setQueryState_cases Let_def split: if_splits)

lemma updateSearchParams_url:
  "url \<in> set (snd (updateSearchParams pathname refs u us)) \<Longrightarrow>
   \<exists>c. url = replace_url pathname (URLSearchParams_toString c) \<and>
       c = foldl (\<lambda>ps upd.
                  updateQueryState upd ps (options_for (qs_stableOptions refs) (fst upd)))
             (base_params (qs_stableSearchParams refs)) (u # us) \<and>
       qs_stableSearchParams refs \<noteq> Some c"
  by (simp add: updateSearchParams_cases Let_def split: if_splits)

lemma useQueryState_effect_url:
  "url \<in> set (snd (useQueryState_effect pathname refs searchParams)) \<Longrightarrow>
   \<exists>val c. url = replace_url pathname (URLSearchParams_toString c) \<and>
       c = updateQueryState (q_stableKey refs, val) searchParams (q_stableOptions refs) \<and>
       c \<noteq> searchParams"
proof -
  assume url: "url \<in> set (snd (useQueryState_effect pathname refs searchParams))"
  then obtain refs' val
    where "url \<in> set (snd (setQueryState pathname refs' val))"
      and "q_stableSearchParams refs' = Some searchParams"
      and "q_stableKey refs' = q_stableKey refs" and "q_stableOptions refs' = q_stableOptions refs"
    by (auto simp: useQueryState_effect_def Let_def split: if_splits)
  with setQueryState_url [of url pathname refs' val] show ?thesis
    by (auto simp: base_params_def)
qed

lemma updateSearchParams_keeps:
  "qs_stableKeys (fst (updateSearchParams pathname refs u us)) = qs_stableKeys refs \<and>
   qs_stableOptions (fst (updateSearchParams pathname refs u us)) = qs_stableOptions refs \<and>
   qs_paramUpdates (fst (updateSearchParams pathname refs u us)) = qs_paramUpdates refs"
  by (simp add: updateSearchParams_cases Let_def)

lemma effect_body_keeps:
  "qs_stableKeys (fst (effect_body pathname searchParams init key refs)) = qs_stableKeys refs \<and>
   qs_stableOptions (fst (effect_body pathname searchParams init key refs)) =
     qs_stableOptions refs"
  using updateSearchParams_keeps
  by (simp add: effect_body_def Let_def case_prod_unfold split: list.splits)

lemma effect_body_empties:
  "qs_paramUpdates refs = [] \<Longrightarrow>
   qs_paramUpdates (fst (effect_body pathname searchParams init key refs)) = []"
  by (simp add: effect_body_def Let_def case_prod_unfold split: list.splits)

text \<open>
  With nothing pending, a round commits at most once, and the commit is the observed
  snapshot with this one key updated.
\<close>

lemma effect_body_url:
  assumes "qs_paramUpdates refs = []"
    and "url \<in> set (snd (effect_body pathname searchParams init key refs))"
  shows "\<exists>val c. url = replace_url pathname (URLSearchParams_toString c) \<and>
       c = updateQueryState (key, val) searchParams (options_for (qs_stableOptions refs) key) \<and>
       c \<noteq> searchParams"
proof -
  let ?val = "case URLSearchParams_get searchParams key of None \<Rightarrow> [] | Some v \<Rightarrow> v"
  let ?refs = "refs\<lparr>qs_paramUpdates := [(key, ?val)],
                    qs_stableSearchParams := Some searchParams\<rparr>"
  from assms have "url \<in> set (snd (updateSearchParams pathname ?refs (key, ?val) []))"
    by (auto simp: effect_body_def Let_def case_prod_unfold split: if_splits)
  from updateSearchParams_url [OF this] show ?thesis
    by (auto simp: base_params_def)
qed

lemma effect_loop_url:
  "qs_paramUpdates refs = [] \<Longrightarrow>
   url \<in> set (snd (effect_loop pathname searchParams init keys refs)) \<Longrightarrow>
   \<exists>key val c. key \<in> set keys \<and> url = replace_url pathname (URLSearchParams_toString c) \<and>
       c = updateQueryState (key, val) searchParams (options_for (qs_stableOptions refs) key) \<and>
       c \<noteq> searchParams"
proof (induction keys arbitrary: refs)
  case Nil
  then show ?case by simp
next
  case (Cons key keys)
  let ?refs1 = "fst (effect_body pathname searchParams init key refs)"
  from Cons.prems(2)
  consider (now) "url \<in> set (snd (effect_body pathname searchParams init key refs))"
    | (later) "url \<in> set (snd (effect_loop pathname searchParams init keys ?refs1))"
    by (auto simp: case_prod_unfold Let_def)
  then show ?case
  proof cases
    case now
    from effect_body_url [OF Cons.prems(1) now] show ?thesis by auto
  next
    case later
    have "qs_paramUpdates ?refs1 = []"
      using Cons.prems(1) by (rule effect_body_empties)
    from Cons.IH [OF this later] effect_body_keeps [of pathname searchParams init key refs]
    show ?thesis by auto
  qed
qed

lemma useQueriesState_effect_url:
  "qs_paramUpdates refs = [] \<Longrightarrow>
   url \<in> set (snd (useQueriesState_effect pathname refs searchParams)) \<Longrightarrow>
   \<exists>key val c. key \<in> set (qs_stableKeys refs) \<and>
       url = replace_url pathname (URLSearchParams_toString c) \<and>
       c = updateQueryState (key, val) searchParams (options_for (qs_stableOptions refs) key) \<and>
       c \<noteq> searchParams"
  using effect_loop_url [of "refs\<lparr>qs_stableSearchParams := Some searchParams\<rparr>" url pathname
      searchParams True "qs_stableKeys refs"]
    effect_loop_url [of refs url pathname searchParams False "qs_stableKeys refs"]
  by (auto simp: useQueriesState_effect_def Let_def split: if_splits)

section \<open>The frame of an update\<close>

lemma untracked_delete:
  "key \<in> set keys \<Longrightarrow> untracked keys (URLSearchParams_delete key ps) = untracked keys ps"
  by (induction ps) (auto simp: untracked_def URLSearchParams_delete_def)

lemma untracked_set:
  "key \<in> set keys \<Longrightarrow> untracked keys (URLSearchParams_set key v ps) = untracked keys ps"
proof (induction ps)
  case Nil
  then show ?case by (simp add: untracked_def)
next
  case (Cons p ps)
  obtain n w where p: "p = (n, w)" by (cases p)
  show ?case
  proof (cases "n = key")
    case True
    with Cons.prems untracked_delete [OF Cons.prems, of ps] show ?thesis
      by (simp add: p untracked_def)
  next
    case False
    with Cons show ?thesis by (simp add: p untracked_def)
  qed
qed

lemma untracked_updateQueryState:
  "fst upd \<in> set keys \<Longrightarrow> untracked keys (updateQueryState upd ps options) = untracked keys ps"
proof -
  assume tracked: "fst upd \<in> set keys"
  obtain key val where upd: "upd = (key, val)" by (cases upd)
  show ?thesis
    using tracked unfolding upd updateQueryState_action
    by (cases "resolve default_nonempty val options")
      (simp_all add: untracked_set untracked_delete)
qed

lemma untracked_foldl:
  "fst ` set upds \<subseteq> set keys \<Longrightarrow>
   untracked keys
     (foldl (\<lambda>ps upd. updateQueryState upd ps (options_for by_key (fst upd))) ps upds) =
   untracked keys ps"
  by (induction upds arbitrary: ps) (simp_all add: untracked_updateQueryState)

lemma names_delete:
  "fst ` set (URLSearchParams_delete key ps) \<subseteq> fst ` set ps"
  by (auto simp: URLSearchParams_delete_def)

lemma names_set:
  "fst ` set (URLSearchParams_set key v ps) \<subseteq> insert key (fst ` set ps)"
proof (induction ps)
  case Nil
  show ?case by simp
next
  case (Cons p ps)
  obtain n w where p: "p = (n, w)" by (cases p)
  show ?case
    using Cons names_delete [of key ps] by (auto simp: p)
qed

lemma names_updateQueryState:
  "fst ` set (updateQueryState (key, val) ps options) \<subseteq> insert key (fst ` set ps)"
  unfolding updateQueryState_action
  using names_set [of key _ ps] names_delete [of key ps]
  by (cases "resolve default_nonempty val options") auto

section \<open>What the two hooks commit\<close>

lemma setQueryState_noop:
  "snd (setQueryState pathname refs val) = [] \<Longrightarrow> fst (setQueryState pathname refs val) = refs"
  by (simp add: setQueryState_cases Let_def split: if_splits)

lemma updateSearchParams_noop:
  "snd (updateSearchParams pathname refs u us) = [] \<Longrightarrow>
   fst (updateSearchParams pathname refs u us) = refs"
  by (simp add: updateSearchParams_cases Let_def split: if_splits)

lemma useQueryState_effect_differs:
  assumes "url \<in> set (snd (useQueryState_effect pathname refs searchParams))"
  shows "url \<noteq> replace_url pathname (URLSearchParams_toString searchParams)"
proof -
  from useQueryState_effect_url [OF assms]
  obtain c where "url = replace_url pathname (URLSearchParams_toString c)" and "c \<noteq> searchParams"
    by blast
  then show ?thesis by (simp only: commit_url_inject) simp
qed

lemma useQueriesState_effect_differs:
  assumes "qs_paramUpdates refs = []"
    and "url \<in> set (snd (useQueriesState_effect pathname refs searchParams))"
  shows "url \<noteq> replace_url pathname (URLSearchParams_toString searchParams)"
proof -
  from useQueriesState_effect_url [OF assms]
  obtain c where "url = replace_url pathname (URLSearchParams_toString c)" and "c \<noteq> searchParams"
    by blast
  then show ?thesis by (simp only: commit_url_inject) simp
qed

lemma setQueryState_frame:
  assumes "url \<in> set (snd (setQueryState pathname refs val))"
  shows "untracked [q_stableKey refs] (committed_params pathname url) =
     untracked [q_stableKey refs] (base_params (q_stableSearchParams refs))"
proof -
  from setQueryState_url [OF assms]
  have url: "url = replace_url pathname (URLSearchParams_toString
      (updateQueryState (q_stableKey refs, val) (base_params (q_stableSearchParams refs))
         (q_stableOptions refs)))"
    by blast
  show ?thesis
    unfolding url committed_params_replace_url
    by (rule untracked_updateQueryState) simp
qed

lemma useQueryState_effect_frame:
  assumes "url \<in> set (snd (useQueryState_effect pathname refs searchParams))"
  shows "untracked [q_stableKey refs] (committed_params pathname url) =
     untracked [q_stableKey refs] searchParams"
proof -
  from useQueryState_effect_url [OF assms]
  obtain val where url: "url = replace_url pathname (URLSearchParams_toString
      (updateQueryState (q_stableKey refs, val) searchParams (q_stableOptions refs)))"
    by blast
  show ?thesis
    unfolding url committed_params_replace_url
    by (rule untracked_updateQueryState) simp
qed

lemma setQueryStrings_frame:
  assumes "key \<in> set (qs_stableKeys refs)"
    and "url \<in> set (snd (setQueryStrings pathname refs key val))"
  shows "untracked (qs_stableKeys refs) (committed_params pathname url) =
     untracked (qs_stableKeys refs) (base_params (qs_stableSearchParams refs))"
proof -
  from updateSearchParams_url [OF assms(2) [unfolded setQueryStrings_def]]
  have url: "url = replace_url pathname (URLSearchParams_toString
      (updateQueryState (key, val) (base_params (qs_stableSearchParams refs))
         (options_for (qs_stableOptions refs) key)))"
    by simp
  show ?thesis
    unfolding url committed_params_replace_url
    by (rule untracked_updateQueryState) (simp add: assms(1))
qed

lemma useQueriesState_effect_frame:
  assumes "qs_paramUpdates refs = []"
    and "url \<in> set (snd (useQueriesState_effect pathname refs searchParams))"
  shows "untracked (qs_stableKeys refs) (committed_params pathname url) =
     untracked (qs_stableKeys refs) searchParams"
proof -
  from useQueriesState_effect_url [OF assms]
  obtain key val where key: "key \<in> set (qs_stableKeys refs)"
    and url: "url = replace_url pathname (URLSearchParams_toString
      (updateQueryState (key, val) searchParams (options_for (qs_stableOptions refs) key)))"
    by blast
  show ?thesis
    unfolding url committed_params_replace_url
    by (rule untracked_updateQueryState) (simp add: key)
qed

text \<open>Between calls nothing is pending: every round of the effect empties the queue.\<close>

lemma effect_loop_empties:
  "qs_paramUpdates refs = [] \<Longrightarrow>
   qs_paramUpdates (fst (effect_loop pathname searchParams init keys refs)) = []"
proof (induction keys arbitrary: refs)
  case Nil
  then show ?case by simp
next
  case (Cons key keys)
  from Cons.IH [OF effect_body_empties [OF Cons.prems]] show ?case
    by (simp add: case_prod_unfold Let_def)
qed

lemma useQueriesState_step_empties:
  "qs_paramUpdates refs = [] \<Longrightarrow>
   qs_paramUpdates (fst (useQueriesState_step pathname refs ev)) = []"
proof (cases ev)
  case (Observed searchParams)
  assume "qs_paramUpdates refs = []"
  then show ?thesis
    unfolding Observed useQueriesState_step.simps useQueriesState_effect_def Let_def
    by (intro effect_loop_empties) simp
next
  case (SetCalled kv)
  assume "qs_paramUpdates refs = []"
  then show ?thesis
    using updateSearchParams_keeps [of pathname refs kv "[]"]
    by (cases kv) (simp add: SetCalled setQueryStrings_def)
qed

section \<open>The single-key hook as the only writer\<close>

lemma setQueryState_step_cases:
  "setQueryState pathname refs val = (refs, []) \<or>
   (\<exists>c. setQueryState pathname refs val =
          (refs\<lparr>q_stableSearchParams := Some c\<rparr>,
           [replace_url pathname (URLSearchParams_toString c)]) \<and>
        q_stableSearchParams refs \<noteq> Some c)"
  by (auto simp add: setQueryState_cases Let_def)

lemma useQueryState_effect_cases:
  "useQueryState_effect pathname refs searchParams = (refs, []) \<or>
   useQueryState_effect pathname refs searchParams =
     (refs\<lparr>q_stableSearchParams := Some searchParams\<rparr>, []) \<or>
   (\<exists>c. useQueryState_effect pathname refs searchParams =
          (refs\<lparr>q_stableSearchParams := Some c\<rparr>,
           [replace_url pathname (URLSearchParams_toString c)]) \<and>
        c \<noteq> searchParams)"
  by (auto simp add: useQueryState_effect_def setQueryState_cases Let_def base_params_def)

lemma navigate_commit:
  "navigate pathname live [replace_url pathname (URLSearchParams_toString c)] = c"
  by (simp add: navigate_def committed_params_replace_url)

lemma navigate_none: "navigate pathname live [] = live"
  by (simp add: navigate_def)

text \<open>
  While no other writer steps in after a commit, the hook remembers the live snapshot,
  and that is the snapshot it committed last.
\<close>

lemma world_step_cases:
  assumes "\<And>u. previous = Some u \<Longrightarrow>
      q_stableSearchParams refs = Some live \<and>
      u = replace_url pathname (URLSearchParams_toString live)"
  shows "(\<exists>refs1. useQueryState_world_step pathname (refs, live) ev = ((refs1, live), []) \<and>
            (\<forall>u. previous = Some u \<longrightarrow> q_stableSearchParams refs1 = Some live)) \<or>
         (\<exists>snapshot. useQueryState_world_step pathname (refs, live) ev =
            ((refs, snapshot), [OutsideChange])) \<or>
         (\<exists>refs1 c. useQueryState_world_step pathname (refs, live) ev =
            ((refs1, c), [Commit (replace_url pathname (URLSearchParams_toString c))]) \<and>
            q_stableSearchParams refs1 = Some c \<and>
            (\<forall>u. previous = Some u \<longrightarrow>
                 u \<noteq> replace_url pathname (URLSearchParams_toString c)))"
proof (cases ev)
  case (SetterCalled val)
  from setQueryState_step_cases [of pathname refs val] show ?thesis
  proof
    assume "setQueryState pathname refs val = (refs, [])"
    then show ?thesis
      using assms by (auto simp: SetterCalled navigate_none)
  next
    assume "\<exists>c. setQueryState pathname refs val =
          (refs\<lparr>q_stableSearchParams := Some c\<rparr>,
           [replace_url pathname (URLSearchParams_toString c)]) \<and>
        q_stableSearchParams refs \<noteq> Some c"
    then obtain c where c: "setQueryState pathname refs val =
          (refs\<lparr>q_stableSearchParams := Some c\<rparr>,
           [replace_url pathname (URLSearchParams_toString c)])"
      and differs: "q_stableSearchParams refs \<noteq> Some c"
      by blast
    have "\<forall>u. previous = Some u \<longrightarrow> u \<noteq> replace_url pathname (URLSearchParams_toString c)"
      using assms differs by (auto simp: commit_url_inject)
    then show ?thesis
      using c by (simp add: SetterCalled navigate_commit)
  qed
next
  case EffectRan
  from useQueryState_effect_cases [of pathname refs live]
  consider (same) "useQueryState_effect pathname refs live = (refs, [])"
    | (taken) "useQueryState_effect pathname refs live =
        (refs\<lparr>q_stableSearchParams := Some live\<rparr>, [])"
    | (commit) c where "useQueryState_effect pathname refs live =
          (refs\<lparr>q_stableSearchParams := Some c\<rparr>,
           [replace_url pathname (URLSearchParams_toString c)])" "c \<noteq> live"
    by blast
  then show ?thesis
  proof cases
    case same
    then show ?thesis using assms by (auto simp: EffectRan navigate_none)
  next
    case taken
    then show ?thesis by (simp add: EffectRan navigate_none)
  next
    case commit
    have "\<forall>u. previous = Some u \<longrightarrow> u \<noteq> replace_url pathname (URLSearchParams_toString c)"
      using assms commit(2) by (auto simp: commit_url_inject)
    then show ?thesis
      using commit(1) by (simp add: EffectRan navigate_commit)
  qed
next
  case (OutsideWrite snapshot)
  then show ?thesis by simp
qed

lemma world_run_no_repeated_commit:
  assumes "\<And>u. previous = Some u \<Longrightarrow>
      q_stableSearchParams refs = Some live \<and>
      u = replace_url pathname (URLSearchParams_toString live)"
  shows "no_repeated_commit
     ((case previous of None \<Rightarrow> [] | Some u \<Rightarrow> [Commit u]) @
      snd (run_steps (useQueryState_world_step pathname) (refs, live) events))"
  using assms
proof (induction events arbitrary: refs live previous)
  case Nil
  show ?case by (cases previous) simp_all
next
  case (Cons ev events)
  let ?step = "useQueryState_world_step pathname"
  from world_step_cases [of previous refs live pathname ev] Cons.prems
  consider (quiet) refs1 where "?step (refs, live) ev = ((refs1, live), [])"
      "\<forall>u. previous = Some u \<longrightarrow> q_stableSearchParams refs1 = Some live"
    | (outside) snapshot where "?step (refs, live) ev = ((refs, snapshot), [OutsideChange])"
    | (commit) refs1 c where
      "?step (refs, live) ev =
         ((refs1, c), [Commit (replace_url pathname (URLSearchParams_toString c))])"
      "q_stableSearchParams refs1 = Some c"
      "\<forall>u. previous = Some u \<longrightarrow> u \<noteq> replace_url pathname (URLSearchParams_toString c)"
    by blast
  then show ?case
  proof cases
    case quiet
    have "no_repeated_commit
       ((case previous of None \<Rightarrow> [] | Some u \<Rightarrow> [Commit u]) @
        snd (run_steps ?step (refs1, live) events))"
      using quiet(2) Cons.prems by (intro Cons.IH) auto
    then show ?thesis
      unfolding run_steps_Cons quiet(1) by simp
  next
    case outside
    have "no_repeated_commit
       ((case None of None \<Rightarrow> [] | Some u \<Rightarrow> [Commit u]) @
        snd (run_steps ?step (refs, snapshot) events))"
      by (intro Cons.IH) simp
    then show ?thesis
      unfolding run_steps_Cons outside by (cases previous) simp_all
  next
    case commit
    let ?u = "replace_url pathname (URLSearchParams_toString c)"
    have "no_repeated_commit
       ((case Some ?u of None \<Rightarrow> [] | Some u \<Rightarrow> [Commit u]) @
        snd (run_steps ?step (refs1, c) events))"
      using commit(2) by (intro Cons.IH) simp
    then show ?thesis
      unfolding run_steps_Cons commit(1) using commit(3) by (cases previous) simp_all
  qed
qed

section \<open>Passes that commit nothing\<close>

lemma useQueryState_effect_noop:
  "snd (useQueryState_effect pathname refs searchParams) = [] \<Longrightarrow>
   fst (useQueryState_effect pathname refs searchParams) = refs \<or>
   fst (useQueryState_effect pathname refs searchParams) =
     refs\<lparr>q_stableSearchParams := Some searchParams\<rparr>"
  using useQueryState_effect_cases [of pathname refs searchParams] by auto

lemma effect_body_noop:
  assumes "qs_paramUpdates refs = []"
    and "snd (effect_body pathname searchParams init key refs) = []"
  shows "fst (effect_body pathname searchParams init key refs) = refs \<or>
     fst (effect_body pathname searchParams init key refs) =
       refs\<lparr>qs_stableSearchParams := Some searchParams\<rparr>"
  using assms
  by (auto simp: effect_body_def updateSearchParams_cases Let_def case_prod_unfold
      split: if_splits)

lemma effect_loop_noop:
  "qs_paramUpdates refs = [] \<Longrightarrow>
   snd (effect_loop pathname searchParams init keys refs) = [] \<Longrightarrow>
   fst (effect_loop pathname searchParams init keys refs) = refs \<or>
   fst (effect_loop pathname searchParams init keys refs) =
     refs\<lparr>qs_stableSearchParams := Some searchParams\<rparr>"
proof (induction keys arbitrary: refs)
  case Nil
  then show ?case by simp
next
  case (Cons key keys)
  let ?body = "effect_body pathname searchParams init key refs"
  have loop: "effect_loop pathname searchParams init (key # keys) refs =
      (fst (effect_loop pathname searchParams init keys (fst ?body)),
       snd ?body @ snd (effect_loop pathname searchParams init keys (fst ?body)))"
    by (simp add: case_prod_unfold Let_def)
  from Cons.prems(2) have quiet: "snd ?body = []"
    and rest: "snd (effect_loop pathname searchParams init keys (fst ?body)) = []"
    unfolding loop by simp_all
  from effect_body_noop [OF Cons.prems(1) quiet]
  have body: "fst ?body = refs \<or> fst ?body = refs\<lparr>qs_stableSearchParams := Some searchParams\<rparr>" .
  then have "qs_paramUpdates (fst ?body) = []"
    using Cons.prems(1) by auto
  from Cons.IH [OF this rest] body show ?case
    unfolding loop by auto
qed

lemma useQueriesState_effect_noop:
  assumes "qs_paramUpdates refs = []"
    and "snd (useQueriesState_effect pathname refs searchParams) = []"
  shows "fst (useQueriesState_effect pathname refs searchParams) = refs \<or>
     fst (useQueriesState_effect pathname refs searchParams) =
       refs\<lparr>qs_stableSearchParams := Some searchParams\<rparr>"
proof (cases "qs_stableSearchParams refs = None")
  case True
  let ?refs = "refs\<lparr>qs_stableSearchParams := Some searchParams\<rparr>"
  have eff: "useQueriesState_effect pathname refs searchParams =
      effect_loop pathname searchParams True (qs_stableKeys refs) ?refs"
    using True by (simp add: useQueriesState_effect_def Let_def)
  have "qs_paramUpdates ?refs = []" using assms(1) by simp
  from effect_loop_noop [OF this assms(2) [unfolded eff]] show ?thesis
    unfolding eff by auto
next
  case False
  have eff: "useQueriesState_effect pathname refs searchParams =
      effect_loop pathname searchParams False (qs_stableKeys refs) refs"
    using False by (auto simp add: useQueriesState_effect_def Let_def)
  from effect_loop_noop [OF assms(1) assms(2) [unfolded eff]] show ?thesis
    unfolding eff .
qed

section \<open>The batch hook committing the same URL twice\<close>

text \<open>
  The batch hook is the only writer here. On mount it observes \<open>sort=date\<close>, commits
  \<open>sort=date&page=1\<close> for \<open>page\<close> and then, in the round for \<open>sort\<close>, puts the observed
  snapshot back into the ref before a commit that changes nothing. It observes its own
  commit without a correction, so the ref stays at \<open>sort=date\<close>, and \<open>set("page", "1")\<close>
  commits \<open>sort=date&page=1\<close> once more.
\<close>

lemma useQueriesState_recommits_own_url:
  "snd (run_steps (useQueriesState_step ''/list'')
          (useQueriesState_refs [''page'', ''sort''] (Some page_sort_options))
          [Observed [(''sort'', ''date'')], Observed [(''sort'', ''date''), (''page'', ''1'')],
           SetCalled (''page'', ''1'')]) =
     [''/list?sort=date&page=1'', ''/list?sort=date&page=1'']"
  by (simp add: useQueriesState_effect_def effect_body_def updateSearchParams_def
      setQueryStrings_def useQueriesState_refs_def shouldUpdateQueryState_def
      updateQueryState_def options_for_def hasOptions_def object_keys_length_def
      opt_defaultValue_def opt_schema_def URLSearchParams_has_def URLSearchParams_delete_def
      URLSearchParams_new_def urlencoded_parse_def parse_pair_def plus_to_space_def
      urlencoded_string_def urlencoded_byte_def urlencoded_unreserved_def replace_url_def
      Let_def page_sort_options_def enum_schema_def)

section \<open>Results\<close>

text \<open>
  C1. In a pass of \<open>useQueriesState\<close>'s effect in which two or more keys need
  correction, all of them should go into one update list and one combined commit. The
  code does otherwise: with the keys \<open>["page", "sort"]\<close>, \<open>page\<close> absent with default
  \<open>1\<close> and \<open>sort\<close> invalid with default \<open>name\<close>, the first pass issues two commits, one
  per key, and neither holds both \<open>page=1\<close> and \<open>sort=name\<close>; the second is computed
  from the observed snapshot again and so is without \<open>page\<close>.
\<close>

theorem batch_pass_commits_once_per_key:
  "snd (useQueriesState_effect ''/list''
          (useQueriesState_refs [''page'', ''sort''] (Some page_sort_options))
          [(''sort'', ''bad'')]) =
     [''/list?sort=bad&page=1'', ''/list?sort=name'']"
  by (simp add: setQueryState_def useQueryState_effect_def useQueriesState_effect_def
      effect_body_def updateSearchParams_def setQueryStrings_def useQueryState_refs_def
      useQueriesState_refs_def shouldUpdateQueryState_def updateQueryState_def
      options_for_def hasOptions_def object_keys_length_def opt_defaultValue_def
      opt_schema_def URLSearchParams_has_def URLSearchParams_delete_def
      URLSearchParams_new_def urlencoded_parse_def parse_pair_def plus_to_space_def
      urlencoded_string_def urlencoded_byte_def urlencoded_unreserved_def replace_url_def
      Let_def page_sort_options_def enum_schema_def)

text \<open>
  C2, as amended. \<open>updateQueryState\<close> is the specification's decision procedure for every
  key, raw value, options and starting list, where "a default exists" means that
  \<open>defaultValue\<close> is a non-empty string: with no options, set the key iff the raw value
  is non-empty, else delete it; with a validator, on success set the validator's output,
  on failure set the default under \<open>"fallback"\<close> when a non-empty default exists and
  delete the key otherwise; with no validator, an empty raw value sets the non-empty
  default under \<open>"fallback"\<close> and otherwise deletes the key, and a non-empty raw value is
  set as it is.
\<close>

theorem updateQueryState_implements_resolve:
  "updateQueryState (key, rawValue) searchParams options =
     apply_action key (resolve default_nonempty rawValue options) searchParams"
  by (rule updateQueryState_action)

text \<open>
  The validator-normalisation example of the specification: the raw value \<open>ACTIVE\<close>
  fails the schema and the default \<open>active\<close> is written in its place.
\<close>

theorem updateQueryState_implements_resolve_witness:
  "updateQueryState (''status'', ''ACTIVE'') [(''status'', ''ACTIVE''), (''q'', ''x'')]
     (Some \<lparr>defaultValue = Val ''active'',
            schema = Val (enum_schema [''active'', ''inactive'']),
            onParseError = Missing\<rparr>) =
   [(''status'', ''active''), (''q'', ''x'')]"
  using updateQueryState_implements_resolve
    [of "''status''" "''ACTIVE''" "[(''status'', ''ACTIVE''), (''q'', ''x'')]"
      "Some \<lparr>defaultValue = Val ''active'',
             schema = Val (enum_schema [''active'', ''inactive'']),
             onParseError = Missing\<rparr>"]
  by (simp add: resolve_def default_nonempty_def the_default_def onInvalid_def
      enum_schema_def URLSearchParams_delete_def)

text \<open>
  C2 as stated fails when the supplied default is the empty string: with
  \<open>{ defaultValue: "" }\<close> and an empty raw value the stated procedure sets the key to the
  default, and the code deletes the key.
\<close>

theorem updateQueryState_empty_default_counterexample:
  "updateQueryState (''k'', []) [] (Some empty_default_options) = [] \<and>
   apply_action ''k'' (resolve default_supplied [] (Some empty_default_options)) [] =
     [(''k'', [])]"
  by (simp add: updateQueryState_def resolve_def default_supplied_def the_default_def
      onInvalid_def empty_default_options_def URLSearchParams_delete_def)

text \<open>
  C3, as amended. \<open>shouldUpdateQueryState\<close> returns false when no options are configured,
  the key is present and its value is non-empty; otherwise it returns true iff one of
  these holds, where "a default" is a non-empty \<open>defaultValue\<close>: initial observation with
  a default that differs from the raw value; initial observation with no default but a
  validator; key present with an empty value; key absent with a default; a validator
  exists and the raw value differs from the previous snapshot's value for the key.
\<close>

theorem shouldUpdateQueryState_is_needsCorrection:
  "shouldUpdateQueryState key rawValue options paramExists previousSnapshot isInitialObservation =
     needsCorrection default_nonempty key rawValue paramExists isInitialObservation options
       previousSnapshot"
proof (cases options)
  case None
  then show ?thesis
    by (simp add: shouldUpdateQueryState_def needsCorrection_def hasOptions_def
        options_configured_def opt_defaultValue_def opt_schema_def)
next
  case (Some opts)
  have cfg: "hasOptions options = options_configured options"
    using Some by (auto simp: hasOptions_def options_configured_def object_keys_length_def)
  have keyed: "\<not> options_configured options \<Longrightarrow>
      prop_value (defaultValue opts) = None \<and> prop_value (schema opts) = None"
    using Some
    by (cases "defaultValue opts"; cases "schema opts") (auto simp: options_configured_def)
  show ?thesis
  proof (cases "options_configured options")
    case True
    with cfg Some show ?thesis
      by (auto simp: shouldUpdateQueryState_def needsCorrection_def opt_defaultValue_def
          opt_schema_def default_nonempty_def has_validator_def Let_def
          split: option.splits)
  next
    case False
    with cfg Some keyed [OF False] show ?thesis
      by (auto simp: shouldUpdateQueryState_def needsCorrection_def opt_defaultValue_def
          opt_schema_def default_nonempty_def has_validator_def Let_def
          split: option.splits)
  qed
qed

text \<open>
  The default-on-mount example of the specification: \<open>sort\<close> is absent and has the
  default \<open>name\<close>, so the first observation asks for a correction.
\<close>

theorem shouldUpdateQueryState_is_needsCorrection_witness:
  "shouldUpdateQueryState ''sort'' [] (page_sort_options ''sort'') False (Some []) True"
  using shouldUpdateQueryState_is_needsCorrection
    [of "''sort''" "[]" "page_sort_options ''sort''" False "Some []" True]
  by (simp add: needsCorrection_def page_sort_options_def default_nonempty_def
      options_configured_def has_validator_def)

text \<open>
  C3 as stated fails when the supplied default is the empty string: with
  \<open>{ defaultValue: "" }\<close> and the key absent, "key absent with a default" holds, and the
  code returns false.
\<close>

theorem shouldUpdateQueryState_empty_default_counterexample:
  "shouldUpdateQueryState ''k'' [] (Some empty_default_options) False (Some []) False = False \<and>
   needsCorrection default_supplied ''k'' [] False False (Some empty_default_options) (Some [])
     = True"
  by (simp add: shouldUpdateQueryState_def needsCorrection_def hasOptions_def
      object_keys_length_def opt_defaultValue_def opt_schema_def default_supplied_def
      has_validator_def options_configured_def empty_default_options_def)

text \<open>
  C4, as amended. A commit is requested only when the candidate snapshot differs from
  the snapshot remembered at that moment: the last committed or taken-over one for a
  setter call, the one just observed for a reconciliation pass. For the single-key hook,
  in every sequence of setter calls, passes and writes by others, from any state, no two
  consecutive commits are equal unless another writer changed the snapshot between them. In any
  sequence of setter calls, of either hook and from any state, no two consecutive
  commits are equal, and the first differs from the remembered snapshot's URL. No pass
  commits the URL of the snapshot it observed. A setter call that commits nothing leaves
  the refs as they were; a pass that commits nothing leaves them as they were or with the
  observed snapshot as the remembered one.
\<close>

theorem commit_only_when_serialization_differs:
  "no_repeated_commit
     (snd (run_steps (useQueryState_world_step pathname) (refs, live) events)) \<and>
   distinct_adj (snd (run_steps (setQueryState pathname) refs vals)) \<and>
   (\<forall>c. q_stableSearchParams refs = Some c \<longrightarrow>
        distinct_adj (replace_url pathname (URLSearchParams_toString c) #
          snd (run_steps (setQueryState pathname) refs vals))) \<and>
   distinct_adj
     (snd (run_steps (\<lambda>r kv. setQueryStrings pathname r (fst kv) (snd kv)) qrefs kvs)) \<and>
   (\<forall>c. qs_stableSearchParams qrefs = Some c \<longrightarrow>
        distinct_adj (replace_url pathname (URLSearchParams_toString c) #
          snd (run_steps (\<lambda>r kv. setQueryStrings pathname r (fst kv) (snd kv)) qrefs kvs))) \<and>
   (\<forall>url \<in> set (snd (useQueryState_effect pathname refs searchParams)).
        url \<noteq> replace_url pathname (URLSearchParams_toString searchParams)) \<and>
   (qs_paramUpdates qrefs = [] \<longrightarrow>
     (\<forall>url \<in> set (snd (useQueriesState_effect pathname qrefs searchParams)).
        url \<noteq> replace_url pathname (URLSearchParams_toString searchParams))) \<and>
   (snd (setQueryState pathname refs val) = [] \<longrightarrow>
      fst (setQueryState pathname refs val) = refs) \<and>
   (snd (setQueryStrings pathname qrefs key val) = [] \<longrightarrow>
      fst (setQueryStrings pathname qrefs key val) = qrefs) \<and>
   (snd (useQueryState_effect pathname refs searchParams) = [] \<longrightarrow>
      fst (useQueryState_effect pathname refs searchParams) = refs \<or>
      fst (useQueryState_effect pathname refs searchParams) =
        refs\<lparr>q_stableSearchParams := Some searchParams\<rparr>) \<and>
   (qs_paramUpdates qrefs = [] \<longrightarrow>
    snd (useQueriesState_effect pathname qrefs searchParams) = [] \<longrightarrow>
      fst (useQueriesState_effect pathname qrefs searchParams) = qrefs \<or>
      fst (useQueriesState_effect pathname qrefs searchParams) =
        qrefs\<lparr>qs_stableSearchParams := Some searchParams\<rparr>)"
proof (intro conjI)
  show "no_repeated_commit
     (snd (run_steps (useQueryState_world_step pathname) (refs, live) events))"
    using world_run_no_repeated_commit [of None refs live pathname events] by simp
  show "distinct_adj (snd (run_steps (setQueryState pathname) refs vals))"
    using setQueryState_run_distinct_adj by blast
  show "\<forall>c. q_stableSearchParams refs = Some c \<longrightarrow>
        distinct_adj (replace_url pathname (URLSearchParams_toString c) #
          snd (run_steps (setQueryState pathname) refs vals))"
    using setQueryState_run_distinct_adj by blast
  show "distinct_adj
     (snd (run_steps (\<lambda>r kv. setQueryStrings pathname r (fst kv) (snd kv)) qrefs kvs))"
    using setQueryStrings_run_distinct_adj by blast
  show "\<forall>c. qs_stableSearchParams qrefs = Some c \<longrightarrow>
        distinct_adj (replace_url pathname (URLSearchParams_toString c) #
          snd (run_steps (\<lambda>r kv. setQueryStrings pathname r (fst kv) (snd kv)) qrefs kvs))"
    using setQueryStrings_run_distinct_adj by blast
  show "\<forall>url \<in> set (snd (useQueryState_effect pathname refs searchParams)).
        url \<noteq> replace_url pathname (URLSearchParams_toString searchParams)"
    using useQueryState_effect_differs by blast
  show "qs_paramUpdates qrefs = [] \<longrightarrow>
     (\<forall>url \<in> set (snd (useQueriesState_effect pathname qrefs searchParams)).
        url \<noteq> replace_url pathname (URLSearchParams_toString searchParams))"
    using useQueriesState_effect_differs by blast
  show "snd (setQueryState pathname refs val) = [] \<longrightarrow>
      fst (setQueryState pathname refs val) = refs"
    using setQueryState_noop by blast
  show "snd (setQueryStrings pathname qrefs key val) = [] \<longrightarrow>
      fst (setQueryStrings pathname qrefs key val) = qrefs"
    using updateSearchParams_noop by (simp add: setQueryStrings_def)
  show "snd (useQueryState_effect pathname refs searchParams) = [] \<longrightarrow>
      fst (useQueryState_effect pathname refs searchParams) = refs \<or>
      fst (useQueryState_effect pathname refs searchParams) =
        refs\<lparr>q_stableSearchParams := Some searchParams\<rparr>"
    using useQueryState_effect_noop by blast
  show "qs_paramUpdates qrefs = [] \<longrightarrow>
    snd (useQueriesState_effect pathname qrefs searchParams) = [] \<longrightarrow>
      fst (useQueriesState_effect pathname qrefs searchParams) = qrefs \<or>
      fst (useQueriesState_effect pathname qrefs searchParams) =
        qrefs\<lparr>qs_stableSearchParams := Some searchParams\<rparr>"
    using useQueriesState_effect_noop by blast
qed

theorem commit_only_when_serialization_differs_witness:
  "snd (run_steps (useQueryState_world_step ''/p'')
          (useQueryState_refs ''k'' (Some d_default_options), [])
          [EffectRan, EffectRan, SetterCalled ''d'', SetterCalled ''x'', OutsideWrite [],
           EffectRan]) =
     [Commit ''/p?k=d'', Commit ''/p?k=x'', OutsideChange, Commit ''/p?k=d''] \<and>
   no_repeated_commit
     [Commit ''/p?k=d'', Commit ''/p?k=x'', OutsideChange, Commit ''/p?k=d''] \<and>
   snd (run_steps (setQueryState ''/p'')
          (useQueryState_refs ''k'' (Some d_default_options)) [''a'', ''a'', ''b'']) =
     [''/p?k=a'', ''/p?k=b''] \<and>
   fst (useQueryState_effect ''/p'' (useQueryState_refs ''k'' (Some d_default_options))
          [(''k'', ''d'')]) =
     (useQueryState_refs ''k'' (Some d_default_options))
       \<lparr>q_stableSearchParams := Some [(''k'', ''d'')]\<rparr>"
  using commit_only_when_serialization_differs
    [where pathname = "''/p''"
      and refs = "useQueryState_refs ''k'' (Some d_default_options)" and live = "[]"
      and events = "[EffectRan, EffectRan, SetterCalled ''d'', SetterCalled ''x'',
                     OutsideWrite [], EffectRan]"
      and vals = "[''a'', ''a'', ''b'']" and val = "''a''"
      and qrefs = "useQueriesState_refs [''page'', ''sort''] (Some page_sort_options)"
      and kvs = "[]" and key = "''page''" and searchParams = "[(''k'', ''d'')]"]
  by (simp add: setQueryState_def useQueryState_effect_def useQueryState_refs_def
      shouldUpdateQueryState_def updateQueryState_def hasOptions_def object_keys_length_def
      opt_defaultValue_def opt_schema_def URLSearchParams_has_def URLSearchParams_delete_def
      URLSearchParams_new_def urlencoded_parse_def parse_pair_def plus_to_space_def
      urlencoded_string_def urlencoded_byte_def urlencoded_unreserved_def replace_url_def
      navigate_def committed_params_def Let_def d_default_options_def)

text \<open>
  C4 as stated fails once an external change is observed between two commits: the key
  \<open>k\<close> has the default \<open>d\<close>; the first pass observes an empty snapshot and commits
  \<open>k=d\<close>; the next pass observes \<open>k=d\<close>; then the snapshot is empty again, the pass
  takes it as the remembered one and commits \<open>k=d\<close> a second time.
\<close>

theorem consecutive_commits_same_counterexample:
  "snd (run_steps (useQueryState_step ''/p'') (useQueryState_refs ''k'' (Some d_default_options))
          [Observed [], Observed [(''k'', ''d'')], Observed []]) =
     [''/p?k=d'', ''/p?k=d''] \<and>
   \<not> distinct_adj [''/p?k=d'', ''/p?k=d'']"
  by (simp add: setQueryState_def useQueryState_effect_def useQueriesState_effect_def
      effect_body_def updateSearchParams_def setQueryStrings_def useQueryState_refs_def
      useQueriesState_refs_def shouldUpdateQueryState_def updateQueryState_def
      options_for_def hasOptions_def object_keys_length_def opt_defaultValue_def
      opt_schema_def URLSearchParams_has_def URLSearchParams_delete_def
      URLSearchParams_new_def urlencoded_parse_def parse_pair_def plus_to_space_def
      urlencoded_string_def urlencoded_byte_def urlencoded_unreserved_def replace_url_def
      Let_def d_default_options_def)

text \<open>
  C5. Within one pass the predicate should see, for every key, the snapshots as they
  were when the pass began. The code does otherwise. The remembered snapshot is \<open>page=1&sort=name\<close> and the pass
  observes \<open>sort=bad\<close>. With the keys \<open>["page", "sort"]\<close> the commit for \<open>page\<close> replaces
  the remembered snapshot before \<open>sort\<close> is judged, \<open>sort\<close> is found unchanged and
  \<open>sort=bad\<close> stays, although against the snapshot remembered before the pass a
  correction is due; with the keys in the other order \<open>sort\<close> is corrected.
\<close>

theorem later_key_decided_after_earlier_write:
  "snd (run_steps (useQueriesState_step ''/list'')
          (useQueriesState_refs [''page'', ''sort''] (Some page_sort_options))
          [Observed [(''page'', ''1''), (''sort'', ''name'')], Observed [(''sort'', ''bad'')]]) =
     [''/list?sort=bad&page=1''] \<and>
   shouldUpdateQueryState ''sort'' ''bad'' (page_sort_options ''sort'') True
     (Some [(''page'', ''1''), (''sort'', ''name'')]) False \<and>
   snd (run_steps (useQueriesState_step ''/list'')
          (useQueriesState_refs [''sort'', ''page''] (Some page_sort_options))
          [Observed [(''page'', ''1''), (''sort'', ''name'')], Observed [(''sort'', ''bad'')]]) =
     [''/list?sort=name'', ''/list?sort=bad&page=1'']"
  by (simp add: setQueryState_def useQueryState_effect_def useQueriesState_effect_def
      effect_body_def updateSearchParams_def setQueryStrings_def useQueryState_refs_def
      useQueriesState_refs_def shouldUpdateQueryState_def updateQueryState_def
      options_for_def hasOptions_def object_keys_length_def opt_defaultValue_def
      opt_schema_def URLSearchParams_has_def URLSearchParams_delete_def
      URLSearchParams_new_def urlencoded_parse_def parse_pair_def plus_to_space_def
      urlencoded_string_def urlencoded_byte_def urlencoded_unreserved_def replace_url_def
      Let_def page_sort_options_def enum_schema_def)

text \<open>
  C6, as amended. A key list with a duplicate is rejected when the call is type-checked:
  the type \<open>UniqueArray\<close> of the \<open>keys\<close> parameter admits a tuple of string literals
  exactly when its elements are pairwise distinct. The body of \<open>useQueriesState\<close> has no
  check of its own: it stores whatever list reaches it, unchanged.
\<close>

theorem UniqueArray_accepts_iff_distinct:
  "(UniqueArray_accepts keys \<longleftrightarrow> distinct keys) \<and>
   qs_stableKeys (useQueriesState_refs keys options) = keys"
  by (simp add: UniqueArray_accepts_def DuplicateElements_empty_iff useQueriesState_refs_def)

theorem UniqueArray_accepts_iff_distinct_witness:
  "UniqueArray_accepts [''page'', ''sort''] \<and> \<not> UniqueArray_accepts [''page'', ''page''] \<and>
   qs_stableKeys (useQueriesState_refs [''page'', ''page''] None) = [''page'', ''page'']"
  using UniqueArray_accepts_iff_distinct [of "[''page'', ''sort'']" None]
    UniqueArray_accepts_iff_distinct [of "[''page'', ''page'']" None]
  by simp

text \<open>
  C6 as stated fails at run time: given \<open>["page", "page"]\<close>, the hook is constructed and
  its first pass reconciles both occurrences, each with a commit of its own.
\<close>

theorem useQueriesState_duplicate_keys_counterexample:
  "\<not> distinct [''page'', ''page''] \<and>
   snd (useQueriesState_effect ''/list''
          (useQueriesState_refs [''page'', ''page''] (Some page_sort_options)) []) =
     [''/list?page=1'', ''/list?page=1'']"
  by (simp add: useQueriesState_effect_def useQueriesState_refs_def page_sort_options_def
      shouldUpdateQueryState_def updateSearchParams_def options_for_def hasOptions_def
      object_keys_length_def opt_defaultValue_def opt_schema_def URLSearchParams_has_def
      effect_body_def updateQueryState_def URLSearchParams_new_def urlencoded_parse_def
      urlencoded_string_def urlencoded_byte_def urlencoded_unreserved_def replace_url_def
      Let_def)

text \<open>
  C7. Every key a hook does not track should appear in a committed snapshot with the
  value it has in the external snapshot at the time of the commit. A reconciliation pass
  does so: it takes over the observed snapshot before it writes. The setter does
  otherwise: it writes from the ref, which is refreshed only on mount and in a pass that
  corrects. The hook for \<open>k\<close> remembers \<open>a=1\<close>, the snapshot becomes \<open>a=2\<close> with nothing
  to correct, and \<open>set("x")\<close> commits \<open>a=1&k=x\<close>, undoing the other writer. The hook for
  \<open>b\<close> mounts on an empty query, another writer sets \<open>a=1\<close>, and \<open>set("2")\<close> commits
  \<open>b=2\<close> without \<open>a\<close>.
\<close>

theorem setter_writes_back_remembered_snapshot:
  "snd (run_steps (useQueryState_step ''/p'') (useQueryState_refs ''k'' None)
          [Observed [(''a'', ''1'')], Observed [(''a'', ''2'')], SetCalled ''x'']) =
     [''/p?a=1&k=x''] \<and>
   untracked [''k''] (committed_params ''/p'' ''/p?a=1&k=x'') = [(''a'', ''1'')] \<and>
   untracked [''k''] [(''a'', ''2'')] = [(''a'', ''2'')] \<and>
   snd (run_steps (useQueryState_step ''/p'') (useQueryState_refs ''b'' None)
          [Observed [], Observed [(''a'', ''1'')], SetCalled ''2'']) =
     [''/p?b=2''] \<and>
   untracked [''b''] (committed_params ''/p'' ''/p?b=2'') = [] \<and>
   untracked [''b''] [(''a'', ''1'')] = [(''a'', ''1'')]"
  by (simp add: setQueryState_def useQueryState_effect_def useQueryState_refs_def
      shouldUpdateQueryState_def updateQueryState_def hasOptions_def object_keys_length_def
      opt_defaultValue_def opt_schema_def URLSearchParams_has_def URLSearchParams_delete_def
      URLSearchParams_new_def urlencoded_parse_def parse_pair_def plus_to_space_def
      urlencoded_string_def urlencoded_byte_def urlencoded_unreserved_def replace_url_def
      untracked_def committed_params_def Let_def)

text \<open>
  C8. While the remembered snapshot is \<open>null\<close>, the setter of either hook computes the new
  query string from the empty string: it commits exactly one URL, remembers the snapshot
  it committed, and every name in that snapshot is the key being set.
\<close>

theorem setter_before_first_pass_uses_empty_base:
  "(q_stableSearchParams refs = None \<longrightarrow>
      snd (setQueryState pathname refs val) =
        [replace_url pathname (URLSearchParams_toString
           (createQueryState (OneUpdate (q_stableKey refs, val) [] (q_stableOptions refs))))] \<and>
      q_stableSearchParams (fst (setQueryState pathname refs val)) =
        Some (createQueryState (OneUpdate (q_stableKey refs, val) [] (q_stableOptions refs))) \<and>
      fst ` set (createQueryState (OneUpdate (q_stableKey refs, val) [] (q_stableOptions refs)))
        \<subseteq> {q_stableKey refs}) \<and>
   (qs_stableSearchParams qrefs = None \<longrightarrow>
      snd (setQueryStrings pathname qrefs key val) =
        [replace_url pathname (URLSearchParams_toString
           (createQueryState (ManyUpdates (key, val) [] [] (qs_stableOptions qrefs))))] \<and>
      qs_stableSearchParams (fst (setQueryStrings pathname qrefs key val)) =
        Some (createQueryState (ManyUpdates (key, val) [] [] (qs_stableOptions qrefs))) \<and>
      fst ` set (createQueryState (ManyUpdates (key, val) [] [] (qs_stableOptions qrefs)))
        \<subseteq> {key})"
proof (intro conjI impI)
  assume none: "q_stableSearchParams refs = None"
  let ?c = "createQueryState (OneUpdate (q_stableKey refs, val) [] (q_stableOptions refs))"
  have c: "?c = updateQueryState (q_stableKey refs, val) [] (q_stableOptions refs)"
    by (simp add: URLSearchParams_new_empty)
  show "snd (setQueryState pathname refs val) = [replace_url pathname (URLSearchParams_toString ?c)]"
    unfolding c by (simp add: setQueryState_cases none base_params_def Let_def)
  show "q_stableSearchParams (fst (setQueryState pathname refs val)) = Some ?c"
    unfolding c by (simp add: setQueryState_cases none base_params_def Let_def)
  show "fst ` set ?c \<subseteq> {q_stableKey refs}"
    unfolding c using names_updateQueryState [of "q_stableKey refs" val "[]"] by simp
next
  assume none: "qs_stableSearchParams qrefs = None"
  let ?c = "createQueryState (ManyUpdates (key, val) [] [] (qs_stableOptions qrefs))"
  have c: "?c = updateQueryState (key, val) [] (options_for (qs_stableOptions qrefs) key)"
    by (simp add: URLSearchParams_new_empty)
  show "snd (setQueryStrings pathname qrefs key val) =
      [replace_url pathname (URLSearchParams_toString ?c)]"
    unfolding c by (simp add: setQueryStrings_def updateSearchParams_cases none base_params_def Let_def)
  show "qs_stableSearchParams (fst (setQueryStrings pathname qrefs key val)) = Some ?c"
    unfolding c by (simp add: setQueryStrings_def updateSearchParams_cases none base_params_def Let_def)
  show "fst ` set ?c \<subseteq> {key}"
    unfolding c using names_updateQueryState [of key val "[]"] by simp
qed

theorem setter_before_first_pass_uses_empty_base_witness:
  "snd (setQueryState ''/p'' (useQueryState_refs ''k'' None) ''x'') = [''/p?k=x''] \<and>
   snd (setQueryStrings ''/list''
          (useQueriesState_refs [''page'', ''sort''] (Some page_sort_options)) ''page'' ''2'') =
     [''/list?page=2'']"
  using setter_before_first_pass_uses_empty_base
    [where pathname = "''/p''" and refs = "useQueryState_refs ''k'' None" and val = "''x''"
      and qrefs = "useQueriesState_refs [''page'', ''sort''] (Some page_sort_options)"
      and key = "''page''"]
    setter_before_first_pass_uses_empty_base
    [where pathname = "''/list''" and refs = "useQueryState_refs ''k'' None" and val = "''2''"
      and qrefs = "useQueriesState_refs [''page'', ''sort''] (Some page_sort_options)"
      and key = "''page''"]
  by (simp add: setQueryState_def useQueryState_effect_def useQueriesState_effect_def
      effect_body_def updateSearchParams_def setQueryStrings_def useQueryState_refs_def
      useQueriesState_refs_def shouldUpdateQueryState_def updateQueryState_def
      options_for_def hasOptions_def object_keys_length_def opt_defaultValue_def
      opt_schema_def URLSearchParams_has_def URLSearchParams_delete_def
      URLSearchParams_new_def urlencoded_parse_def parse_pair_def plus_to_space_def
      urlencoded_string_def urlencoded_byte_def urlencoded_unreserved_def replace_url_def
      Let_def page_sort_options_def enum_schema_def)

text \<open>
  C9. For every argument \<open>x\<close>, \<open>safeTry(x)\<close> returns \<open>[x, null]\<close>: the body of the
  \<open>try\<close> block only binds a value that is already evaluated, so the \<open>catch\<close> branch
  is never taken and the error component is always \<open>null\<close>.
\<close>

theorem safeTry_returns_value_and_null:
  "safeTry x = (Value x, Null)"
  by (simp add: safeTry_def try_catch_def)

text \<open>
  C10. An empty options object behaves as no options: \<open>shouldUpdateQueryState\<close> gives
  the same boolean and \<open>updateQueryState\<close> the same parameter list for \<open>{}\<close> as for
  \<open>undefined\<close>, for every key, raw value, presence flag, mount flag, previous snapshot
  and starting parameter list.
\<close>

theorem empty_options_same_as_no_options:
  "shouldUpdateQueryState key val (Some empty_options) paramExists prev isInitialMount =
     shouldUpdateQueryState key val None paramExists prev isInitialMount \<and>
   updateQueryState (key, val) searchParams (Some empty_options) =
     updateQueryState (key, val) searchParams None"
  by (simp add: shouldUpdateQueryState_def updateQueryState_def hasOptions_def
      object_keys_length_def empty_options_def opt_defaultValue_def opt_schema_def)

end
